theory Spec2Isabelle
  imports Main "HOL-Library.Char_ord" "HOL-Library.List_Lexorder" "HOL-Library.Sublist"
    "HOL-Library.Multiset"
begin

section \<open>Strings\<close>

text \<open>
  A string of the program is a sequence of code units, here a \<^typ>\<open>string\<close>; a column
  is an index into that sequence and \<open>length\<close> is the program's \<open>.length\<close>.
  The character type has 256 values, so the model speaks about text in the range
  U+0000 .. U+00FF; every character outside the ASCII word class behaves in the
  locator like any other non-tag character.
\<close>

text \<open>\<open>s.startsWith(t)\<close>\<close>

fun startsWith :: "string \<Rightarrow> string \<Rightarrow> bool" where
  "startsWith s [] = True"
| "startsWith [] (d # t) = False"
| "startsWith (c # s) (d # t) = (c = d \<and> startsWith s t)"

text \<open>\<open>s.includes(t)\<close>: some position of \<open>s\<close> starts an occurrence of \<open>t\<close>.\<close>

fun includesStr :: "string \<Rightarrow> string \<Rightarrow> bool" where
  "includesStr [] t = (t = [])"
| "includesStr (c # s) t = (startsWith (c # s) t \<or> includesStr s t)"

text \<open>
  \<open>s.indexOf(t)\<close> searched from the start: the first position where an occurrence of
  \<open>t\<close> begins; \<open>None\<close> stands for the program's \<open>-1\<close>.
\<close>

fun indexOf0 :: "string \<Rightarrow> string \<Rightarrow> nat option" where
  "indexOf0 [] t = (if t = [] then Some 0 else None)"
| "indexOf0 (c # s) t =
     (if startsWith (c # s) t then Some 0 else map_option Suc (indexOf0 s t))"

text \<open>\<open>s.indexOf(t, position)\<close>; a position past the end is clamped to the length.\<close>

definition indexOf :: "string \<Rightarrow> string \<Rightarrow> nat \<Rightarrow> nat option" where
  "indexOf s t position =
     (let start = min position (length s)
      in map_option (\<lambda>k. start + k) (indexOf0 (drop start s) t))"

text \<open>
  \<open>s.toLowerCase()\<close>. In the range U+0000 .. U+00FF the default case conversion maps
  \<open>A\<close>..\<open>Z\<close> and U+00C0 .. U+00DE (without the multiplication sign U+00D7) to the
  character 32 positions later and leaves every other character alone.
\<close>

definition lowerChar :: "char \<Rightarrow> char" where
  "lowerChar c =
     (let n = (of_char c :: nat)
      in if (65 \<le> n \<and> n \<le> 90) \<or> (192 \<le> n \<and> n \<le> 222 \<and> n \<noteq> 215)
         then char_of (n + 32) else c)"

definition toLowerCase :: "string \<Rightarrow> string" where
  "toLowerCase s = map lowerChar s"

section \<open>The tag patterns\<close>

text \<open>The class \<open>\w\<close>: ASCII letters, digits and the underscore.\<close>

definition isWordChar :: "char \<Rightarrow> bool" where
  "isWordChar c =
     (let n = (of_char c :: nat)
      in (65 \<le> n \<and> n \<le> 90) \<or> (97 \<le> n \<and> n \<le> 122) \<or> (48 \<le> n \<and> n \<le> 57) \<or> n = 95)"

text \<open>The class \<open>[\w\/-]\<close>.\<close>

definition isTagChar :: "char \<Rightarrow> bool" where
  "isTagChar c = (isWordChar c \<or> c = CHR ''/'' \<or> c = CHR ''-'')"

text \<open>
  The successive matches of \<open>/#[\w\/-]+/g\<close> in a text whose first character has column
  \<open>i\<close>: each match is reported with the column where it starts. A match begins at
  the first \<open>#\<close> that is followed by a tag character, takes the longest run of tag
  characters, and the search resumes right after it.
\<close>

function tagMatchesFrom :: "nat \<Rightarrow> string \<Rightarrow> (nat \<times> string) list" where
  "tagMatchesFrom i [] = []"
| "tagMatchesFrom i (c # cs) =
     (if c = CHR ''#'' \<and> takeWhile isTagChar cs \<noteq> []
      then (i, c # takeWhile isTagChar cs)
             # tagMatchesFrom (Suc i + length (takeWhile isTagChar cs)) (dropWhile isTagChar cs)
      else tagMatchesFrom (Suc i) cs)"
  by pat_completeness auto
termination
  by (relation "measure (\<lambda>(i, cs). length cs)")
     (auto simp: length_dropWhile_le less_Suc_eq_le)

text \<open>
  \<open>line.match(/#[\w\/-]+/g)\<close>: the matched texts in order, or \<open>null\<close> (here
  \<open>None\<close>) when there is no match.
\<close>

definition matchTags :: "string \<Rightarrow> string list option" where
  "matchTags line =
     (let found = map snd (tagMatchesFrom 0 line)
      in if found = [] then None else Some found)"

text \<open>
  \<open>line.match(/#[\w\/-]*/)\<close>: the first match of the pattern that also accepts a bare
  \<open>#\<close>, as its \<open>index\<close> and its text \<open>match[0]\<close>.
\<close>

fun matchPartial :: "string \<Rightarrow> (nat \<times> string) option" where
  "matchPartial [] = None"
| "matchPartial (c # cs) =
     (if c = CHR ''#'' then Some (0, c # takeWhile isTagChar cs)
      else map_option (\<lambda>(i, m). (Suc i, m)) (matchPartial cs))"

section \<open>The editor\<close>

record EditorPosition =
  line :: nat
  ch :: nat

record TagPosition =
  from_pos :: EditorPosition
  to_pos :: EditorPosition

datatype error = MutationRejected

text \<open>
  Modelled from the spec: the host's document and editor surface, which the repository
  uses through \<open>getCursor\<close>, \<open>getLine\<close>, \<open>replaceRange\<close> and \<open>setCursor\<close> and does not
  define. The document is its list of lines; \<open>readOnly\<close> is the state in which the
  document rejects a mutation.
\<close>

record Editor =
  doc :: "string list"
  cursor :: EditorPosition
  readOnly :: bool

text \<open>Modelled from the spec: \<open>getCursor\<close>, the position of the cursor.\<close>

definition getCursor :: "Editor \<Rightarrow> EditorPosition" where
  "getCursor ed = cursor ed"

text \<open>Modelled from the spec: \<open>getLine\<close>; a line number outside the document reads as empty.\<close>

definition getLine :: "Editor \<Rightarrow> nat \<Rightarrow> string" where
  "getLine ed n = (if n < length (doc ed) then doc ed ! n else [])"

text \<open>
  Modelled from the spec: the text pieces between the line breaks of a text, as the host
  stores a document.
\<close>

fun splitLines :: "string \<Rightarrow> string list" where
  "splitLines [] = [[]]"
| "splitLines (c # cs) =
     (if c = CHR 0x0A then [] # splitLines cs
      else (case splitLines cs of [] \<Rightarrow> [[c]] | l # ls \<Rightarrow> (c # l) # ls))"

text \<open>
  Modelled from the spec: a position lies in the document when its line exists and its
  column is at most the length of that line; one position is not after another.
\<close>

definition inDocument :: "Editor \<Rightarrow> EditorPosition \<Rightarrow> bool" where
  "inDocument ed p = (line p < length (doc ed) \<and> ch p \<le> length (doc ed ! line p))"

definition notAfter :: "EditorPosition \<Rightarrow> EditorPosition \<Rightarrow> bool" where
  "notAfter p q = (line p < line q \<or> (line p = line q \<and> ch p \<le> ch q))"

text \<open>
  Modelled from the spec: \<open>replaceRange(text, from, to)\<close>. The text between the two
  positions is replaced by \<open>text\<close>. A rejected mutation is the host raising an error and
  leaving the document as it was; the document rejects in its read-only state, and in
  this model also when the range does not lie inside the document.
\<close>

definition replaceRange ::
  "string \<Rightarrow> EditorPosition \<Rightarrow> EditorPosition \<Rightarrow> Editor \<Rightarrow> error + Editor" where
  "replaceRange text f t ed =
     (if readOnly ed \<or> \<not> inDocument ed f \<or> \<not> inDocument ed t \<or> \<not> notAfter f t
      then Inl MutationRejected
      else Inr (ed\<lparr>doc :=
             take (line f) (doc ed)
             @ splitLines (take (ch f) (doc ed ! line f) @ text @ drop (ch t) (doc ed ! line t))
             @ drop (Suc (line t)) (doc ed)\<rparr>))"

text \<open>Modelled from the spec: \<open>setCursor(pos)\<close>.\<close>

definition setCursor :: "EditorPosition \<Rightarrow> Editor \<Rightarrow> Editor" where
  "setCursor p ed = ed\<lparr>cursor := p\<rparr>"

section \<open>Tag Locator: \<open>MyPlugin.handleTagClick\<close>\<close>

text \<open>
  The \<open>for\<close> loop over \<open>tagMatch\<close> (lines 69 to 83). Its variables \<open>tagStart\<close> and
  \<open>tagEnd\<close> are set together, so the pair is \<open>None\<close> while both are \<open>-1\<close>.
  \<open>break\<close> returns the pair; a tag that \<open>indexOf\<close> does not find is skipped with
  \<open>searchFrom\<close> unchanged.
\<close>

fun tagLoop :: "string \<Rightarrow> nat \<Rightarrow> nat \<Rightarrow> string list \<Rightarrow> (nat \<times> nat) option" where
  "tagLoop lineText cursorCh searchFrom [] = None"
| "tagLoop lineText cursorCh searchFrom (tag # tags) =
     (case indexOf lineText tag searchFrom of
        None \<Rightarrow> tagLoop lineText cursorCh searchFrom tags
      | Some tagIndex \<Rightarrow>
          (let tagStartPos = tagIndex;
               tagEndPos = tagIndex + length tag
           in if cursorCh \<ge> tagStartPos \<and> cursorCh \<le> tagEndPos
              then Some (tagStartPos, tagEndPos)
              else tagLoop lineText cursorCh tagEndPos tags))"

text \<open>
  The argument is the active Markdown view's editor, \<open>None\<close> when there is no such view.
  The result is the \<open>tagPosition\<close> with which the tag selector is opened, \<open>None\<close> when
  the handler returns without opening it.
\<close>

definition handleTagClick :: "Editor option \<Rightarrow> TagPosition option" where
  "handleTagClick activeView =
     (case activeView of
        None \<Rightarrow> None
      | Some editor \<Rightarrow>
          (let cur = getCursor editor;
               lineText = getLine editor (line cur)
           in case matchTags lineText of
                Some tagMatch \<Rightarrow>
                  (case tagLoop lineText (ch cur) 0 tagMatch of
                     None \<Rightarrow> None
                   | Some (tagStart, tagEnd) \<Rightarrow>
                       Some \<lparr>from_pos = \<lparr>line = line cur, ch = tagStart\<rparr>,
                             to_pos = \<lparr>line = line cur, ch = tagEnd\<rparr>\<rparr>)
              | None \<Rightarrow>
                  (case matchPartial lineText of
                     None \<Rightarrow> None
                   | Some (index, m) \<Rightarrow>
                       Some \<lparr>from_pos = \<lparr>line = line cur, ch = index\<rparr>,
                             to_pos = \<lparr>line = line cur, ch = index + length m\<rparr>\<rparr>)))"

section \<open>The tag selector: \<open>TagSelectorModal\<close>\<close>

record MyPluginSettings =
  recentlyChosenTags :: "string list"

text \<open>
  The fields of the modal; \<open>settings\<close> is \<open>this.plugin.settings\<close>, the one settings
  object of the plugin.
\<close>

record TagSelectorModal =
  editor :: Editor
  tagPosition :: TagPosition
  allTags :: "string list"
  settings :: MyPluginSettings

definition CLEAR_TAG :: string where
  "CLEAR_TAG = ''CLEAR_TAG''"

text \<open>
  \<open>xs.sort((a, b) => compare(a, b))\<close>. The sort of the language is stable, and for a
  consistent comparison its result is the one stable ordering; the model computes that
  ordering by insertion, each element going before the first one it does not exceed.
\<close>

fun insertWith :: "(string \<Rightarrow> string \<Rightarrow> int) \<Rightarrow> string \<Rightarrow> string list \<Rightarrow> string list" where
  "insertWith compare x [] = [x]"
| "insertWith compare x (y # ys) =
     (if compare x y \<le> 0 then x # y # ys else y # insertWith compare x ys)"

definition sortWith :: "(string \<Rightarrow> string \<Rightarrow> int) \<Rightarrow> string list \<Rightarrow> string list" where
  "sortWith compare xs = foldr (insertWith compare) xs []"

text \<open>
  Lines 153 to 157: the keys of the object that the metadata cache returns, each with a
  leading \<open>#\<close>; no tags when the cache returns nothing. The object is the list of its
  entries, a tag name with its count.
\<close>

definition allVaultTags :: "(string \<times> nat) list option \<Rightarrow> string list" where
  "allVaultTags allTagsObject =
     (case allTagsObject of
        Some obj \<Rightarrow> map (\<lambda>tag. if startsWith tag ''#'' then tag else ''#'' @ tag) (map fst obj)
      | None \<Rightarrow> [])"

text \<open>
  \<open>loadAllTags\<close>; \<open>localeCompare\<close> is the host's string comparison, a parameter of the
  model.
\<close>

definition loadAllTags ::
  "(string \<Rightarrow> string \<Rightarrow> int) \<Rightarrow> (string \<times> nat) list option \<Rightarrow> TagSelectorModal
     \<Rightarrow> TagSelectorModal" where
  "loadAllTags localeCompare allTagsObject m =
     (let vaultTags = allVaultTags allTagsObject;
          recentTags = rev (recentlyChosenTags (settings m));
          vaultTagSet = set vaultTags;
          validRecentTags = filter (\<lambda>tag. tag \<in> vaultTagSet) recentTags;
          remainingTags =
            sortWith localeCompare (filter (\<lambda>tag. tag \<notin> set validRecentTags) vaultTags)
      in m\<lparr>allTags := CLEAR_TAG # (validRecentTags @ remainingTags)\<rparr>)"

text \<open>The constructor: the fields are set and the catalog is loaded.\<close>

definition newTagSelectorModal ::
  "(string \<Rightarrow> string \<Rightarrow> int) \<Rightarrow> (string \<times> nat) list option \<Rightarrow> Editor \<Rightarrow> TagPosition
     \<Rightarrow> MyPluginSettings \<Rightarrow> TagSelectorModal" where
  "newTagSelectorModal localeCompare allTagsObject ed tp s =
     loadAllTags localeCompare allTagsObject
       \<lparr>editor = ed, tagPosition = tp, allTags = [], settings = s\<rparr>"

definition getSuggestions :: "string \<Rightarrow> TagSelectorModal \<Rightarrow> string list" where
  "getSuggestions query m =
     (let queryLower = toLowerCase query
      in if query = [] then allTags m
         else
           (let filteredTags =
                  filter (\<lambda>tag. tag \<noteq> CLEAR_TAG \<and> includesStr (toLowerCase tag) queryLower)
                    (allTags m)
            in if includesStr ''clear'' queryLower \<or> includesStr ''remove'' queryLower
                  \<or> includesStr ''delete'' queryLower
               then CLEAR_TAG # filteredTags
               else filteredTags))"

text \<open>\<open>xs.indexOf(x)\<close> on an array, \<open>None\<close> for \<open>-1\<close>.\<close>

fun arrayIndexOf :: "'a list \<Rightarrow> 'a \<Rightarrow> nat option" where
  "arrayIndexOf [] x = None"
| "arrayIndexOf (y # ys) x = (if y = x then Some 0 else map_option Suc (arrayIndexOf ys x))"

text \<open>
  \<open>updateRecentlyChosenTags\<close>: \<open>splice\<close>, \<open>push\<close> and \<open>shift\<close> on the list of the settings.
  The request to save the settings writes a copy for the next start and changes nothing
  that the program reads afterwards.
\<close>

definition updateRecentlyChosenTags :: "string \<Rightarrow> MyPluginSettings \<Rightarrow> MyPluginSettings" where
  "updateRecentlyChosenTags tag s =
     (let recentTags = recentlyChosenTags s;
          spliced = (case arrayIndexOf recentTags tag of
                       Some existingIndex \<Rightarrow>
                         take existingIndex recentTags @ drop (Suc existingIndex) recentTags
                     | None \<Rightarrow> recentTags);
          pushed = spliced @ [tag];
          shifted = (if length pushed > 20 then tl pushed else pushed)
      in s\<lparr>recentlyChosenTags := shifted\<rparr>)"

text \<open>
  \<open>onChooseSuggestion\<close>. An error raised by \<open>replaceRange\<close> leaves the handler at once;
  the result is that error, if any, with the state in which the handler ended.
\<close>

definition onChooseSuggestion :: "string \<Rightarrow> TagSelectorModal \<Rightarrow> error option \<times> TagSelectorModal" where
  "onChooseSuggestion tag m =
     (if tag = CLEAR_TAG
      then (case replaceRange [] (from_pos (tagPosition m)) (to_pos (tagPosition m)) (editor m) of
              Inl e \<Rightarrow> (Some e, m)
            | Inr ed \<Rightarrow> (None, m\<lparr>editor := setCursor (from_pos (tagPosition m)) ed\<rparr>))
      else (case replaceRange tag (from_pos (tagPosition m)) (to_pos (tagPosition m)) (editor m) of
              Inl e \<Rightarrow> (Some e, m)
            | Inr ed \<Rightarrow>
                (let newCursorPos = \<lparr>line = line (from_pos (tagPosition m)),
                                     ch = ch (from_pos (tagPosition m)) + length tag\<rparr>
                 in (None, m\<lparr>editor := setCursor newCursorPos ed,
                             settings := updateRecentlyChosenTags tag (settings m)\<rparr>))))"

text \<open>
  \<open>onChooseSuggestion\<close> once more, with the editor's \<open>replaceRange\<close> as a parameter:
  the same statements in the same order, for any behaviour of the host's call, which
  either raises an error or returns with the editor as the call leaves it. The handler
  has no \<open>try\<close> and does not look at what the call returns.
\<close>

definition onChooseSuggestionWith ::
  "(string \<Rightarrow> EditorPosition \<Rightarrow> EditorPosition \<Rightarrow> Editor \<Rightarrow> error + Editor)
     \<Rightarrow> string \<Rightarrow> TagSelectorModal \<Rightarrow> error option \<times> TagSelectorModal" where
  "onChooseSuggestionWith hostReplaceRange tag m =
     (if tag = CLEAR_TAG
      then (case hostReplaceRange [] (from_pos (tagPosition m)) (to_pos (tagPosition m)) (editor m) of
              Inl e \<Rightarrow> (Some e, m)
            | Inr ed \<Rightarrow> (None, m\<lparr>editor := setCursor (from_pos (tagPosition m)) ed\<rparr>))
      else (case hostReplaceRange tag (from_pos (tagPosition m)) (to_pos (tagPosition m)) (editor m) of
              Inl e \<Rightarrow> (Some e, m)
            | Inr ed \<Rightarrow>
                (let newCursorPos = \<lparr>line = line (from_pos (tagPosition m)),
                                     ch = ch (from_pos (tagPosition m)) + length tag\<rparr>
                 in (None, m\<lparr>editor := setCursor newCursorPos ed,
                             settings := updateRecentlyChosenTags tag (settings m)\<rparr>))))"

text \<open>
  Modelled from the spec: a host whose document, in its read-only state, rejects a
  mutation without raising an error: the call returns and the document is as it was.
  The spec does not say how a rejection is reported, and the call has no result.
\<close>

definition replaceRangeIgnoring ::
  "string \<Rightarrow> EditorPosition \<Rightarrow> EditorPosition \<Rightarrow> Editor \<Rightarrow> error + Editor" where
  "replaceRangeIgnoring text f t ed = (if readOnly ed then Inr ed else replaceRange text f t ed)"

text \<open>
  A sequence of picker sessions on one document and one settings object: each session
  has the span it was opened with and the entry that was chosen.
\<close>

fun chooseAll :: "(TagPosition \<times> string) list \<Rightarrow> TagSelectorModal \<Rightarrow> TagSelectorModal" where
  "chooseAll [] m = m"
| "chooseAll ((tp, tag) # rest) m =
     chooseAll rest (snd (onChooseSuggestion tag (m\<lparr>tagPosition := tp\<rparr>)))"

section \<open>Notions of the statements\<close>

text \<open>
  The column ranges of the matches of the tag pattern in a line, left to right: the
  column where a match starts and the column right after its last character.
\<close>

definition tagSpans :: "string \<Rightarrow> (nat \<times> nat) list" where
  "tagSpans lineText = map (\<lambda>(i, m). (i, i + length m)) (tagMatchesFrom 0 lineText)"

text \<open>The cursor column lies in a range, both ends included.\<close>

definition containsCursor :: "nat \<Rightarrow> nat \<times> nat \<Rightarrow> bool" where
  "containsCursor c se = (fst se \<le> c \<and> c \<le> snd se)"

text \<open>The span of a column range on a line.\<close>

definition spanOn :: "nat \<Rightarrow> nat \<times> nat \<Rightarrow> TagPosition" where
  "spanOn l se = \<lparr>from_pos = \<lparr>line = l, ch = fst se\<rparr>, to_pos = \<lparr>line = l, ch = snd se\<rparr>\<rparr>"

text \<open>An editor that shows one line, with the cursor at a column of it.\<close>

definition oneLine :: "string \<Rightarrow> nat \<Rightarrow> Editor" where
  "oneLine lineText c = \<lparr>doc = [lineText], cursor = \<lparr>line = 0, ch = c\<rparr>, readOnly = False\<rparr>"

text \<open>
  One consistent comparison of strings, by code unit: an instance of the comparison
  that \<open>loadAllTags\<close> takes.
\<close>

definition codeUnitCompare :: "string \<Rightarrow> string \<Rightarrow> int" where
  "codeUnitCompare a b = (if a < b then - 1 else if a = b then 0 else 1)"

text \<open>Twenty different tags, a full recency list.\<close>

definition twentyTags :: "string list" where
  "twentyTags = map (\<lambda>n. ''#t'' @ replicate n CHR ''x'') [0..<20]"

section \<open>Strings and patterns: basic facts\<close>

lemma startsWith_append: "startsWith s t \<longleftrightarrow> (\<exists>r. s = t @ r)"
  by (induction s t rule: startsWith.induct) auto

lemma includesStr_iff: "includesStr s t \<longleftrightarrow> (\<exists>p r. s = p @ t @ r)"
proof (induction s)
  case Nil
  then show ?case by auto
next
  case (Cons c s)
  show ?case
  proof
    assume "includesStr (c # s) t"
    then consider "startsWith (c # s) t" | "includesStr s t" by auto
    then show "\<exists>p r. c # s = p @ t @ r"
    proof cases
      case 1
      then obtain r where "c # s = t @ r" unfolding startsWith_append by blast
      then have "c # s = [] @ t @ r" by simp
      then show ?thesis by blast
    next
      case 2
      with Cons obtain p r where "s = p @ t @ r" by blast
      then have "c # s = (c # p) @ t @ r" by simp
      then show ?thesis by blast
    qed
  next
    assume "\<exists>p r. c # s = p @ t @ r"
    then obtain p r where pr: "c # s = p @ t @ r" by blast
    show "includesStr (c # s) t"
    proof (cases p)
      case Nil
      with pr have "startsWith (c # s) t" unfolding startsWith_append by auto
      then show ?thesis by simp
    next
      case (Cons d p')
      with pr have "s = p' @ t @ r" by simp
      with Cons.IH have "includesStr s t" by blast
      then show ?thesis by simp
    qed
  qed
qed

lemma indexOf_append:
  "indexOf (pre @ rest) t (length pre) = map_option (\<lambda>k. length pre + k) (indexOf0 rest t)"
  by (simp add: indexOf_def)

lemma tagMatchesFrom_shape:
  "(p, m) \<in> set (tagMatchesFrom i s) \<Longrightarrow>
     \<exists>r. m = CHR ''#'' # r \<and> r \<noteq> [] \<and> (\<forall>c \<in> set r. isTagChar c)"
proof (induction i s rule: tagMatchesFrom.induct)
  case (1 i)
  then show ?case by simp
next
  case (2 i c cs)
  then show ?case
    by (auto split: if_splits dest: set_takeWhileD)
qed

lemma takeWhile_nonempty_of_prefix:
  "cs = r @ rest \<Longrightarrow> r \<noteq> [] \<Longrightarrow> \<forall>c \<in> set r. P c \<Longrightarrow> takeWhile P cs \<noteq> []"
  by (cases r) auto

text \<open>
  The first match is where \<open>indexOf\<close> finds its text, and the later matches are the
  matches of the rest of the line.
\<close>

lemma tagMatchesFrom_first:
  "tagMatchesFrom i s = (p, m) # ms \<Longrightarrow>
     \<exists>k. p = i + k \<and> indexOf0 s m = Some k \<and> k + length m \<le> length s
         \<and> ms = tagMatchesFrom (p + length m) (drop (k + length m) s)"
proof (induction i s rule: tagMatchesFrom.induct)
  case (1 i)
  then show ?case by simp
next
  case (2 i c cs)
  show ?case
  proof (cases "c = CHR ''#'' \<and> takeWhile isTagChar cs \<noteq> []")
    case True
    with "2.prems" have p: "p = i" and m: "m = c # takeWhile isTagChar cs"
      and ms: "ms = tagMatchesFrom (Suc i + length (takeWhile isTagChar cs)) (dropWhile isTagChar cs)"
      by auto
    have sw: "startsWith (c # cs) m"
      unfolding m startsWith_append
      by (metis append_Cons takeWhile_dropWhile_id)
    have len: "length m \<le> length (c # cs)"
      unfolding m by (simp add: length_takeWhile_le)
    have dr: "drop (length m) (c # cs) = dropWhile isTagChar cs"
      unfolding m by (simp add: dropWhile_eq_drop)
    show ?thesis
      apply (rule exI [of _ 0])
      using p sw len dr ms m by simp
  next
    case False
    with "2.prems" have eq: "tagMatchesFrom (Suc i) cs = (p, m) # ms" by auto
    from "2.IH"(2) [OF False eq] obtain k where k: "p = Suc i + k" "indexOf0 cs m = Some k"
      "k + length m \<le> length cs" "ms = tagMatchesFrom (p + length m) (drop (k + length m) cs)"
      by blast
    have "(p, m) \<in> set (tagMatchesFrom (Suc i) cs)" using eq by simp
    then obtain r where r: "m = CHR ''#'' # r" "r \<noteq> []" "\<forall>c \<in> set r. isTagChar c"
      using tagMatchesFrom_shape by blast
    have nsw: "\<not> startsWith (c # cs) m"
    proof
      assume "startsWith (c # cs) m"
      then obtain rest where "c # cs = m @ rest" unfolding startsWith_append by blast
      with r have "c = CHR ''#''" "cs = r @ rest" by simp_all
      with r takeWhile_nonempty_of_prefix have "takeWhile isTagChar cs \<noteq> []" by blast
      with \<open>c = CHR ''#''\<close> False show False by simp
    qed
    show ?thesis
      apply (rule exI [of _ "Suc k"])
      using k nsw by simp
  qed
qed

text \<open>
  The loop of the handler, which looks every matched text up again with \<open>indexOf\<close>,
  visits the matches at the columns where the pattern matched them.
\<close>

lemma tagLoop_matches:
  "tagLoop (pre @ rest) c (length pre) (map snd (tagMatchesFrom (length pre) rest)) =
     map_option (\<lambda>(i, m). (i, i + length m))
       (find (\<lambda>(i, m). i \<le> c \<and> c \<le> i + length m) (tagMatchesFrom (length pre) rest))"
proof (induction "length rest" arbitrary: pre rest rule: less_induct)
  case less
  show ?case
  proof (cases "tagMatchesFrom (length pre) rest")
    case Nil
    then show ?thesis by simp
  next
    case (Cons pm ms)
    obtain p m where pm: "pm = (p, m)" by (cases pm)
    from tagMatchesFrom_first [OF Cons [unfolded pm]] obtain k where
      k: "p = length pre + k" "indexOf0 rest m = Some k" "k + length m \<le> length rest"
         "ms = tagMatchesFrom (p + length m) (drop (k + length m) rest)"
      by blast
    have "(p, m) \<in> set (tagMatchesFrom (length pre) rest)" using Cons pm by simp
    then have mlen: "0 < length m" using tagMatchesFrom_shape by fastforce
    have ix: "indexOf (pre @ rest) m (length pre) = Some p"
      using k by (simp add: indexOf_append)
    show ?thesis
    proof (cases "p \<le> c \<and> c \<le> p + length m")
      case True
      then show ?thesis using Cons pm ix by simp
    next
      case False
      let ?pre = "pre @ take (k + length m) rest"
      let ?rest = "drop (k + length m) rest"
      have split: "?pre @ ?rest = pre @ rest" by simp
      have lp: "length ?pre = p + length m" using k(1,3) by simp
      have "length ?rest < length rest" using k(3) mlen unfolding length_drop by linarith
      from less [OF this, of ?pre] have IH:
        "tagLoop (pre @ rest) c (p + length m) (map snd ms) =
           map_option (\<lambda>(i, m). (i, i + length m))
             (find (\<lambda>(i, m). i \<le> c \<and> c \<le> i + length m) ms)"
        unfolding lp split k(4) [symmetric] .
      show ?thesis using Cons pm ix False IH by (auto simp: Let_def)
    qed
  qed
qed

lemma find_map_spans:
  "map_option (\<lambda>(i, m). (i, i + length m)) (find (\<lambda>(i, m). i \<le> c \<and> c \<le> i + length m) ms) =
     find (containsCursor c) (map (\<lambda>(i, m). (i, i + length m)) ms)"
  by (induction ms) (auto simp: containsCursor_def)

lemma tagLoop_tagSpans:
  "tagLoop lineText c 0 (map snd (tagMatchesFrom 0 lineText)) =
     find (containsCursor c) (tagSpans lineText)"
  using tagLoop_matches [of "[]" lineText c]
  by (simp add: find_map_spans tagSpans_def)

text \<open>What the handler returns, in terms of the matches of the two patterns.\<close>

lemma handleTagClick_cases:
  "handleTagClick (Some ed) =
     (if tagSpans (getLine ed (line (cursor ed))) = []
      then map_option (\<lambda>(i, m). spanOn (line (cursor ed)) (i, i + length m))
             (matchPartial (getLine ed (line (cursor ed))))
      else map_option (spanOn (line (cursor ed)))
             (find (containsCursor (ch (cursor ed))) (tagSpans (getLine ed (line (cursor ed))))))"
proof (cases "tagMatchesFrom 0 (getLine ed (line (cursor ed))) = []")
  case True
  then show ?thesis
    by (auto simp: handleTagClick_def getCursor_def matchTags_def tagSpans_def spanOn_def
          Let_def split: option.splits)
next
  case False
  then have "tagSpans (getLine ed (line (cursor ed))) \<noteq> []"
    by (simp add: tagSpans_def)
  with False show ?thesis
    by (auto simp: handleTagClick_def getCursor_def matchTags_def tagLoop_tagSpans spanOn_def
          Let_def split: option.splits)
qed

section \<open>The matches of the tag pattern\<close>

lemma tagMatchesFrom_bounds:
  "(p, m) \<in> set (tagMatchesFrom i s) \<Longrightarrow> i \<le> p \<and> p + length m \<le> i + length s"
proof (induction i s rule: tagMatchesFrom.induct)
  case (1 i)
  then show ?case by simp
next
  case (2 i c cs)
  show ?case
  proof (cases "c = CHR ''#'' \<and> takeWhile isTagChar cs \<noteq> []")
    case True
    have l: "length (takeWhile isTagChar cs) + length (dropWhile isTagChar cs) = length cs"
      by (metis length_append takeWhile_dropWhile_id)
    from "2.prems" True consider "p = i \<and> m = c # takeWhile isTagChar cs"
      | "(p, m) \<in> set (tagMatchesFrom (Suc i + length (takeWhile isTagChar cs)) (dropWhile isTagChar cs))"
      by auto
    then show ?thesis
    proof cases
      case 1
      then show ?thesis using l by simp
    next
      case 2
      from "2.IH"(1) [OF True 2] show ?thesis using l by simp
    qed
  next
    case False
    with "2.prems" have "(p, m) \<in> set (tagMatchesFrom (Suc i) cs)" by auto
    from "2.IH"(2) [OF False this] show ?thesis by simp
  qed
qed

lemma tagMatchesFrom_sorted:
  "sorted_wrt (\<lambda>a b. fst a + length (snd a) \<le> fst b) (tagMatchesFrom i s)"
proof (induction i s rule: tagMatchesFrom.induct)
  case (1 i)
  then show ?case by simp
next
  case (2 i c cs)
  show ?case
  proof (cases "c = CHR ''#'' \<and> takeWhile isTagChar cs \<noteq> []")
    case True
    have "\<forall>b \<in> set (tagMatchesFrom (Suc i + length (takeWhile isTagChar cs)) (dropWhile isTagChar cs)).
            Suc i + length (takeWhile isTagChar cs) \<le> fst b"
      using tagMatchesFrom_bounds by fastforce
    with "2.IH"(1) [OF True] True show ?thesis by simp
  next
    case False
    with "2.IH"(2) [OF False] show ?thesis by auto
  qed
qed

lemma tagSpans_sorted: "sorted_wrt (\<lambda>a b. snd a \<le> fst b) (tagSpans lineText)"
  using tagMatchesFrom_sorted [of 0 lineText]
  by (simp add: tagSpans_def sorted_wrt_map case_prod_beta)

lemma tagSpans_bounds:
  "(s, e) \<in> set (tagSpans lineText) \<Longrightarrow> s + 2 \<le> e \<and> e \<le> length lineText"
proof -
  assume "(s, e) \<in> set (tagSpans lineText)"
  then obtain m where m: "(s, m) \<in> set (tagMatchesFrom 0 lineText)" "e = s + length m"
    by (auto simp: tagSpans_def)
  from tagMatchesFrom_shape [OF m(1)] have "2 \<le> length m" by (auto simp: Suc_le_eq)
  with tagMatchesFrom_bounds [OF m(1)] m(2) show ?thesis by simp
qed

lemma find_unique:
  assumes "x \<in> set xs" and "P x" and "\<forall>y \<in> set xs. P y \<longrightarrow> y = x"
  shows "find P xs = Some x"
proof (cases "find P xs")
  case None
  with assms(1,2) show ?thesis by (simp add: find_None_iff)
next
  case (Some y)
  then have "y \<in> set xs" and "P y"
    by (auto simp: find_Some_iff)
  with assms(3) Some show ?thesis by blast
qed

lemma find_at:
  "i < length xs \<Longrightarrow> P (xs ! i) \<Longrightarrow> \<forall>j < i. \<not> P (xs ! j) \<Longrightarrow> find P xs = Some (xs ! i)"
  unfolding find_Some_iff by blast

text \<open>The ranges of the matches in some lines used below.\<close>

lemma tagSpans_examples:
  "tagSpans ''See #project/alpha and #todo'' = [(4, 18), (23, 28)]"
  "tagSpans ''#a#b'' = [(0, 2), (2, 4)]"
  "tagSpans ''#a  '' = [(0, 2)]"
  "tagSpans ''x #todo y'' = [(2, 7)]"
  by code_simp+

section \<open>Tag Locator\<close>

text \<open>
  C2. For every line and cursor column: when some match of the tag pattern on the
  cursor's line contains the cursor column, both ends of its range included, the
  handler opens the selector on the span of the first such match, going left to right.
  In particular, when exactly one match contains the cursor, it is that match's span
  and no other.
\<close>

theorem handleTagClick_containing:
  "(find (containsCursor (ch (cursor ed))) (tagSpans (getLine ed (line (cursor ed)))) = Some se
      \<longrightarrow> handleTagClick (Some ed) = Some (spanOn (line (cursor ed)) se))
   \<and> (se \<in> set (tagSpans (getLine ed (line (cursor ed))))
        \<and> containsCursor (ch (cursor ed)) se
        \<and> (\<forall>se' \<in> set (tagSpans (getLine ed (line (cursor ed)))).
              containsCursor (ch (cursor ed)) se' \<longrightarrow> se' = se)
      \<longrightarrow> handleTagClick (Some ed) = Some (spanOn (line (cursor ed)) se))"
proof (intro conjI impI)
  assume "find (containsCursor (ch (cursor ed))) (tagSpans (getLine ed (line (cursor ed)))) = Some se"
  then show "handleTagClick (Some ed) = Some (spanOn (line (cursor ed)) se)"
    by (auto simp: handleTagClick_cases)
next
  assume a: "se \<in> set (tagSpans (getLine ed (line (cursor ed))))
        \<and> containsCursor (ch (cursor ed)) se
        \<and> (\<forall>se' \<in> set (tagSpans (getLine ed (line (cursor ed)))).
              containsCursor (ch (cursor ed)) se' \<longrightarrow> se' = se)"
  then have "find (containsCursor (ch (cursor ed))) (tagSpans (getLine ed (line (cursor ed)))) = Some se"
    by (intro find_unique) blast+
  with a show "handleTagClick (Some ed) = Some (spanOn (line (cursor ed)) se)"
    by (auto simp: handleTagClick_cases)
qed

theorem handleTagClick_containing_witness:
  "tagSpans ''See #project/alpha and #todo'' = [(4, 18), (23, 28)]
   \<and> find (containsCursor 6) (tagSpans ''See #project/alpha and #todo'') = Some (4, 18)
   \<and> containsCursor 6 (4, 18) \<and> \<not> containsCursor 6 (23, 28)
   \<and> handleTagClick (Some (oneLine ''See #project/alpha and #todo'' 6)) =
        Some \<lparr>from_pos = \<lparr>line = 0, ch = 4\<rparr>, to_pos = \<lparr>line = 0, ch = 18\<rparr>\<rparr>"
  using handleTagClick_containing [of "oneLine ''See #project/alpha and #todo'' 6" "(4, 18)"]
  by (simp add: oneLine_def getLine_def tagSpans_examples containsCursor_def spanOn_def)

text \<open>
  C10. When two matches of the tag pattern on the cursor's line share a boundary
  column, the end of the first being the start of the second, and the cursor is at that
  column, the handler opens the selector on the span of the first, the left one. On the
  line \<open>#a#b\<close> with the cursor at column 2 the span is that of \<open>#a\<close>.
\<close>

theorem handleTagClick_shared_boundary:
  "(Suc i < length (tagSpans (getLine ed (line (cursor ed))))
      \<and> tagSpans (getLine ed (line (cursor ed))) ! i = (s, e)
      \<and> tagSpans (getLine ed (line (cursor ed))) ! Suc i = (e, e')
      \<and> ch (cursor ed) = e
      \<longrightarrow> handleTagClick (Some ed) = Some (spanOn (line (cursor ed)) (s, e)))
   \<and> handleTagClick (Some (oneLine ''#a#b'' 2)) =
        Some \<lparr>from_pos = \<lparr>line = 0, ch = 0\<rparr>, to_pos = \<lparr>line = 0, ch = 2\<rparr>\<rparr>"
proof (intro conjI impI)
  let ?sp = "tagSpans (getLine ed (line (cursor ed)))"
  assume a: "Suc i < length ?sp \<and> ?sp ! i = (s, e) \<and> ?sp ! Suc i = (e, e') \<and> ch (cursor ed) = e"
  then have i: "i < length ?sp" by simp
  then have mem: "(s, e) \<in> set ?sp" using a by (metis nth_mem)
  then have se: "s + 2 \<le> e" using tagSpans_bounds by blast
  have before: "\<forall>j < i. \<not> containsCursor e (?sp ! j)"
  proof (intro allI impI)
    fix j assume "j < i"
    with tagSpans_sorted [of "getLine ed (line (cursor ed))"] i
    have "snd (?sp ! j) \<le> fst (?sp ! i)"
      by (simp add: sorted_wrt_iff_nth_less)
    with a se show "\<not> containsCursor e (?sp ! j)"
      by (simp add: containsCursor_def)
  qed
  have "containsCursor e (?sp ! i)" using a se by (simp add: containsCursor_def)
  from find_at [OF i this before] a
  have "find (containsCursor (ch (cursor ed))) ?sp = Some (s, e)" by simp
  then show "handleTagClick (Some ed) = Some (spanOn (line (cursor ed)) (s, e))"
    by (auto simp: handleTagClick_cases)
next
  show "handleTagClick (Some (oneLine ''#a#b'' 2)) =
        Some \<lparr>from_pos = \<lparr>line = 0, ch = 0\<rparr>, to_pos = \<lparr>line = 0, ch = 2\<rparr>\<rparr>"
    by (simp add: handleTagClick_cases oneLine_def getLine_def tagSpans_examples
          containsCursor_def spanOn_def)
qed

theorem handleTagClick_shared_boundary_witness:
  "Suc 0 < length (tagSpans ''#a#b'')
   \<and> tagSpans ''#a#b'' ! 0 = (0, 2) \<and> tagSpans ''#a#b'' ! Suc 0 = (2, 4)
   \<and> handleTagClick (Some (oneLine ''#a#b'' 2)) = Some (spanOn 0 (0, 2))"
  using handleTagClick_shared_boundary [of 0 "oneLine ''#a#b'' 2" 0 2 4]
  by (simp add: oneLine_def getLine_def tagSpans_examples)

section \<open>Tag Locator: the fallback\<close>

lemma matchPartial_bare:
  "tagMatchesFrom i s = [] \<Longrightarrow> matchPartial s = Some (k, m) \<Longrightarrow> m = ''#''"
proof (induction s arbitrary: i k)
  case Nil
  then show ?case by simp
next
  case (Cons c cs)
  show ?case
  proof (cases "c = CHR ''#''")
    case True
    with Cons.prems(1) have "takeWhile isTagChar cs = []"
      by (auto split: if_splits)
    with True Cons.prems(2) show ?thesis by simp
  next
    case False
    with Cons.prems(1) have e: "tagMatchesFrom (Suc i) cs = []" by simp
    from False Cons.prems(2) obtain k' where "matchPartial cs = Some (k', m)"
      by auto
    with Cons.IH [OF e] show ?thesis by blast
  qed
qed

lemma matchPartial_Some_iff: "(\<exists>km. matchPartial s = Some km) \<longleftrightarrow> CHR ''#'' \<in> set s"
  by (induction s) auto

lemma matchPartial_examples:
  "matchPartial ''#a  '' = Some (0, ''#a'')"
  "matchPartial ''x # y'' = Some (2, ''#'')"
  "matchPartial ''x  y'' = None"
  by code_simp+

lemma tagSpans_examples2:
  "tagSpans ''x # y'' = []"
  "tagSpans ''x  y'' = []"
  by code_simp+

text \<open>
  C3, as the handler does it. The search with the partial pattern is made only when the
  cursor's line has no match of the full tag pattern at all; its first match, which is
  then a bare \<open>#\<close>, gives the span, whatever the cursor column. When the line has
  matches of the full pattern and none of them contains the cursor, the handler opens
  nothing, and the partial pattern is not tried. Without an active editor it opens
  nothing either.
\<close>

theorem handleTagClick_fallback:
  "(tagSpans (getLine ed (line (cursor ed))) = []
      \<longrightarrow> handleTagClick (Some ed) =
            map_option (\<lambda>(i, m). spanOn (line (cursor ed)) (i, i + length m))
              (matchPartial (getLine ed (line (cursor ed))))
          \<and> (\<forall>i m. matchPartial (getLine ed (line (cursor ed))) = Some (i, m) \<longrightarrow> m = ''#''))
   \<and> (tagSpans (getLine ed (line (cursor ed))) \<noteq> []
        \<and> find (containsCursor (ch (cursor ed))) (tagSpans (getLine ed (line (cursor ed)))) = None
      \<longrightarrow> handleTagClick (Some ed) = None)
   \<and> handleTagClick None = None"
proof (intro conjI impI allI)
  assume "tagSpans (getLine ed (line (cursor ed))) = []"
  then show "handleTagClick (Some ed) =
            map_option (\<lambda>(i, m). spanOn (line (cursor ed)) (i, i + length m))
              (matchPartial (getLine ed (line (cursor ed))))"
    by (simp add: handleTagClick_cases)
next
  fix i m
  assume "tagSpans (getLine ed (line (cursor ed))) = []"
    and "matchPartial (getLine ed (line (cursor ed))) = Some (i, m)"
  then show "m = ''#''"
    using matchPartial_bare [of 0] by (simp add: tagSpans_def)
next
  assume "tagSpans (getLine ed (line (cursor ed))) \<noteq> []
        \<and> find (containsCursor (ch (cursor ed))) (tagSpans (getLine ed (line (cursor ed)))) = None"
  then show "handleTagClick (Some ed) = None"
    by (simp add: handleTagClick_cases)
next
  show "handleTagClick None = None" by (simp add: handleTagClick_def)
qed

theorem handleTagClick_fallback_witness:
  "tagSpans ''x # y'' = []
   \<and> handleTagClick (Some (oneLine ''x # y'' 0)) =
        Some \<lparr>from_pos = \<lparr>line = 0, ch = 2\<rparr>, to_pos = \<lparr>line = 0, ch = 3\<rparr>\<rparr>
   \<and> tagSpans ''#a  '' \<noteq> [] \<and> find (containsCursor 4) (tagSpans ''#a  '') = None
   \<and> handleTagClick (Some (oneLine ''#a  '' 4)) = None"
  using handleTagClick_fallback [of "oneLine ''x # y'' 0"]
    handleTagClick_fallback [of "oneLine ''#a  '' 4"]
  by (simp add: oneLine_def getLine_def tagSpans_examples tagSpans_examples2
        matchPartial_examples containsCursor_def spanOn_def del: matchPartial.simps)

text \<open>
  C3 as stated fails: on the line \<open>#a\<close> followed by two blanks, with the cursor at
  column 4, no match of the full pattern contains the cursor and the partial pattern
  has the first match \<open>#a\<close> at column 0, yet the handler opens nothing.
\<close>

theorem handleTagClick_fallback_counterexample:
  "find (containsCursor 4) (tagSpans ''#a  '') = None
   \<and> matchPartial ''#a  '' = Some (0, ''#a'')
   \<and> handleTagClick (Some (oneLine ''#a  '' 4)) = None
   \<and> handleTagClick (Some (oneLine ''#a  '' 4)) \<noteq> Some (spanOn 0 (0, 2))"
  by (simp add: handleTagClick_cases oneLine_def getLine_def tagSpans_examples
        matchPartial_examples containsCursor_def del: matchPartial.simps)

section \<open>Recency Store\<close>

lemma arrayIndexOf_None: "arrayIndexOf xs x = None \<longleftrightarrow> x \<notin> set xs"
  by (induction xs) auto

lemma arrayIndexOf_splice:
  "arrayIndexOf xs x = Some i \<Longrightarrow> take i xs @ drop (Suc i) xs = remove1 x xs"
  by (induction xs arbitrary: i) (auto split: if_splits)

lemma updateRecentlyChosenTags_remove1:
  "recentlyChosenTags (updateRecentlyChosenTags tag s) =
     (if length (remove1 tag (recentlyChosenTags s) @ [tag]) > 20
      then tl (remove1 tag (recentlyChosenTags s) @ [tag])
      else remove1 tag (recentlyChosenTags s) @ [tag])"
proof (cases "arrayIndexOf (recentlyChosenTags s) tag")
  case None
  then have "remove1 tag (recentlyChosenTags s) = recentlyChosenTags s"
    by (simp add: arrayIndexOf_None remove1_idem)
  with None show ?thesis
    by (simp add: updateRecentlyChosenTags_def)
next
  case (Some i)
  from arrayIndexOf_splice [OF this] Some show ?thesis
    by (simp add: updateRecentlyChosenTags_def)
qed

lemma updateRecentlyChosenTags_invariant:
  assumes "length (recentlyChosenTags s) \<le> 20" and "distinct (recentlyChosenTags s)"
  shows "length (recentlyChosenTags (updateRecentlyChosenTags tag s)) \<le> 20
         \<and> distinct (recentlyChosenTags (updateRecentlyChosenTags tag s))"
proof -
  let ?p = "remove1 tag (recentlyChosenTags s) @ [tag]"
  have d: "distinct ?p" using assms(2) by simp
  have l: "length ?p \<le> 21" using assms(1) by (auto simp: length_remove1)
  show ?thesis
    unfolding updateRecentlyChosenTags_remove1
    using d l by (auto simp: distinct_tl simp del: distinct_append)
qed

lemma onChooseSuggestion_settings:
  "settings (snd (onChooseSuggestion tag m)) = settings m
   \<or> settings (snd (onChooseSuggestion tag m)) = updateRecentlyChosenTags tag (settings m)"
  by (auto simp: onChooseSuggestion_def Let_def split: sum.splits)

lemma chooseAll_invariant:
  "length (recentlyChosenTags (settings m)) \<le> 20 \<Longrightarrow> distinct (recentlyChosenTags (settings m)) \<Longrightarrow>
     length (recentlyChosenTags (settings (chooseAll sessions m))) \<le> 20
     \<and> distinct (recentlyChosenTags (settings (chooseAll sessions m)))"
proof (induction sessions arbitrary: m)
  case Nil
  then show ?case by simp
next
  case (Cons session sessions)
  obtain tp tag where st: "session = (tp, tag)" by (cases session)
  let ?m = "snd (onChooseSuggestion tag (m\<lparr>tagPosition := tp\<rparr>))"
  have "length (recentlyChosenTags (settings ?m)) \<le> 20 \<and> distinct (recentlyChosenTags (settings ?m))"
    using onChooseSuggestion_settings [of tag "m\<lparr>tagPosition := tp\<rparr>"]
      updateRecentlyChosenTags_invariant [OF Cons.prems, of tag] Cons.prems
    by auto
  with Cons.IH [of ?m] st show ?case by simp
qed

text \<open>
  C4. If the recency list has at most 20 entries and no duplicate, then after any
  sequence of picker sessions, each choosing any entry on any span, it still has at
  most 20 entries and no duplicate. Choosing a tag that is already in a list of at most
  20 entries moves it to the last position and keeps the length. Choosing a new tag
  when the list has 20 entries drops the first, oldest entry.
\<close>

theorem recency_invariant:
  "(length (recentlyChosenTags (settings m)) \<le> 20 \<and> distinct (recentlyChosenTags (settings m))
      \<longrightarrow> length (recentlyChosenTags (settings (chooseAll sessions m))) \<le> 20
          \<and> distinct (recentlyChosenTags (settings (chooseAll sessions m))))
   \<and> (length (recentlyChosenTags s) \<le> 20 \<and> tag \<in> set (recentlyChosenTags s)
      \<longrightarrow> recentlyChosenTags (updateRecentlyChosenTags tag s) = remove1 tag (recentlyChosenTags s) @ [tag]
          \<and> length (recentlyChosenTags (updateRecentlyChosenTags tag s)) = length (recentlyChosenTags s))
   \<and> (length (recentlyChosenTags s) = 20 \<and> tag \<notin> set (recentlyChosenTags s)
      \<longrightarrow> recentlyChosenTags (updateRecentlyChosenTags tag s) = tl (recentlyChosenTags s) @ [tag])"
proof (intro conjI impI)
  assume "length (recentlyChosenTags (settings m)) \<le> 20 \<and> distinct (recentlyChosenTags (settings m))"
  then show "length (recentlyChosenTags (settings (chooseAll sessions m))) \<le> 20"
    and "distinct (recentlyChosenTags (settings (chooseAll sessions m)))"
    using chooseAll_invariant by blast+
next
  assume a: "length (recentlyChosenTags s) \<le> 20 \<and> tag \<in> set (recentlyChosenTags s)"
  then have "length (remove1 tag (recentlyChosenTags s) @ [tag]) = length (recentlyChosenTags s)"
    using length_pos_if_in_set [of tag "recentlyChosenTags s"]
    by (simp add: length_remove1)
  with a show "recentlyChosenTags (updateRecentlyChosenTags tag s) = remove1 tag (recentlyChosenTags s) @ [tag]"
    and "length (recentlyChosenTags (updateRecentlyChosenTags tag s)) = length (recentlyChosenTags s)"
    unfolding updateRecentlyChosenTags_remove1 by simp_all
next
  assume a: "length (recentlyChosenTags s) = 20 \<and> tag \<notin> set (recentlyChosenTags s)"
  then have "recentlyChosenTags s \<noteq> []" by auto
  with a show "recentlyChosenTags (updateRecentlyChosenTags tag s) = tl (recentlyChosenTags s) @ [tag]"
    unfolding updateRecentlyChosenTags_remove1 by (simp add: remove1_idem)
qed

lemma twentyTags_facts:
  "length twentyTags = 20" "''#new'' \<notin> set twentyTags"
  by code_simp+

lemma chooseAll_example:
  "chooseAll [(spanOn 0 (2, 7), ''#a''), (spanOn 0 (2, 4), CLEAR_TAG), (spanOn 0 (2, 2), ''#c'')]
     \<lparr>editor = oneLine ''x #todo y'' 4, tagPosition = spanOn 0 (2, 7), allTags = [],
      settings = \<lparr>recentlyChosenTags = [''#a'', ''#b'']\<rparr>\<rparr>
   = \<lparr>editor = \<lparr>doc = [''x #c y''], cursor = \<lparr>line = 0, ch = 4\<rparr>, readOnly = False\<rparr>,
      tagPosition = spanOn 0 (2, 2), allTags = [],
      settings = \<lparr>recentlyChosenTags = [''#b'', ''#a'', ''#c'']\<rparr>\<rparr>"
  by code_simp

theorem recency_invariant_witness:
  "recentlyChosenTags (settings (chooseAll
       [(spanOn 0 (2, 7), ''#a''), (spanOn 0 (2, 4), CLEAR_TAG), (spanOn 0 (2, 2), ''#c'')]
       \<lparr>editor = oneLine ''x #todo y'' 4, tagPosition = spanOn 0 (2, 7), allTags = [],
        settings = \<lparr>recentlyChosenTags = [''#a'', ''#b'']\<rparr>\<rparr>)) = [''#b'', ''#a'', ''#c'']
   \<and> recentlyChosenTags (updateRecentlyChosenTags ''#a'' \<lparr>recentlyChosenTags = [''#a'', ''#b'']\<rparr>)
       = [''#b'', ''#a'']
   \<and> length twentyTags = 20 \<and> ''#new'' \<notin> set twentyTags
   \<and> recentlyChosenTags (updateRecentlyChosenTags ''#new'' \<lparr>recentlyChosenTags = twentyTags\<rparr>)
       = tl twentyTags @ [''#new'']"
  using recency_invariant [of
      "\<lparr>editor = oneLine ''x #todo y'' 4, tagPosition = spanOn 0 (2, 7), allTags = [],
        settings = \<lparr>recentlyChosenTags = [''#a'', ''#b'']\<rparr>\<rparr>"
      "[(spanOn 0 (2, 7), ''#a''), (spanOn 0 (2, 4), CLEAR_TAG), (spanOn 0 (2, 2), ''#c'')]"
      "\<lparr>recentlyChosenTags = [''#a'', ''#b'']\<rparr>" "''#a''"]
    recency_invariant [of _ _ "\<lparr>recentlyChosenTags = twentyTags\<rparr>" "''#new''"]
  by (simp add: twentyTags_facts chooseAll_example del: chooseAll.simps)

section \<open>Suggestion Filter\<close>

lemma startsWith_prefix: "startsWith s t = prefix t s"
  by (simp add: startsWith_append prefix_def)

lemma includesStr_sublist: "includesStr s t = sublist t s"
  by (simp add: includesStr_iff sublist_def)

lemma getSuggestions_clear_examples:
  "sublist (toLowerCase ''del'') ''delete''"
  "\<not> sublist ''del'' (toLowerCase CLEAR_TAG)"
  "\<not> sublist (toLowerCase ''clearly'') ''clear''"
  "\<not> sublist (toLowerCase ''clearly'') ''remove''"
  "\<not> sublist (toLowerCase ''clearly'') ''delete''"
  "toLowerCase ''del'' = ''del''"
  by code_simp+

text \<open>
  C7. For every non-empty query whose lower-case form is a substring of one of the
  words \<open>clear\<close>, \<open>remove\<close>, \<open>delete\<close>, the suggestions are the sentinel followed
  by the entries that match the query. The query \<open>del\<close> therefore has the sentinel
  first in its result, although \<open>del\<close> does not occur in the sentinel's text. The test
  is not the reverse one: the query \<open>clearly\<close>, which contains a keyword, does not
  bring the sentinel.
\<close>

theorem getSuggestions_clear_intent:
  "(query \<noteq> [] \<and> (sublist (toLowerCase query) ''clear'' \<or> sublist (toLowerCase query) ''remove''
                     \<or> sublist (toLowerCase query) ''delete'')
      \<longrightarrow> getSuggestions query m =
            CLEAR_TAG # filter (\<lambda>tag. tag \<noteq> CLEAR_TAG \<and> sublist (toLowerCase query) (toLowerCase tag))
                          (allTags m))
   \<and> hd (getSuggestions ''del'' m) = CLEAR_TAG
   \<and> CLEAR_TAG \<in> set (getSuggestions ''del'' m)
   \<and> \<not> sublist ''del'' (toLowerCase CLEAR_TAG)
   \<and> CLEAR_TAG \<notin> set (getSuggestions ''clearly'' m)"
proof (intro conjI impI)
  assume "query \<noteq> [] \<and> (sublist (toLowerCase query) ''clear'' \<or> sublist (toLowerCase query) ''remove''
                     \<or> sublist (toLowerCase query) ''delete'')"
  then show "getSuggestions query m =
            CLEAR_TAG # filter (\<lambda>tag. tag \<noteq> CLEAR_TAG \<and> sublist (toLowerCase query) (toLowerCase tag))
                          (allTags m)"
    by (simp add: getSuggestions_def includesStr_sublist Let_def)
next
  have d: "getSuggestions ''del'' m =
            CLEAR_TAG # filter (\<lambda>tag. tag \<noteq> CLEAR_TAG \<and> sublist ''del'' (toLowerCase tag)) (allTags m)"
    using getSuggestions_clear_examples(1)
    by (simp add: getSuggestions_def includesStr_sublist Let_def getSuggestions_clear_examples(6))
  show "hd (getSuggestions ''del'' m) = CLEAR_TAG" by (simp add: d)
  show "CLEAR_TAG \<in> set (getSuggestions ''del'' m)" by (simp add: d)
  show "\<not> sublist ''del'' (toLowerCase CLEAR_TAG)" by (rule getSuggestions_clear_examples(2))
  show "CLEAR_TAG \<notin> set (getSuggestions ''clearly'' m)"
    using getSuggestions_clear_examples(3,4,5)
    by (simp add: getSuggestions_def includesStr_sublist Let_def)
qed

lemma getSuggestions_example_del:
  "getSuggestions ''DEL'' \<lparr>editor = oneLine ''x #todo y'' 4, tagPosition = spanOn 0 (2, 7),
       allTags = [CLEAR_TAG, ''#a'', ''#Model'', ''#b''], settings = \<lparr>recentlyChosenTags = []\<rparr>\<rparr>
     = [CLEAR_TAG, ''#Model'']"
  "sublist (toLowerCase ''DEL'') ''delete''"
  by code_simp+

theorem getSuggestions_clear_intent_witness:
  "''DEL'' \<noteq> [] \<and> sublist (toLowerCase ''DEL'') ''delete''
   \<and> getSuggestions ''DEL'' \<lparr>editor = oneLine ''x #todo y'' 4, tagPosition = spanOn 0 (2, 7),
         allTags = [CLEAR_TAG, ''#a'', ''#Model'', ''#b''], settings = \<lparr>recentlyChosenTags = []\<rparr>\<rparr>
       = [CLEAR_TAG, ''#Model'']"
  using getSuggestions_clear_intent [of "''DEL''" "\<lparr>editor = oneLine ''x #todo y'' 4,
         tagPosition = spanOn 0 (2, 7),
         allTags = [CLEAR_TAG, ''#a'', ''#Model'', ''#b''], settings = \<lparr>recentlyChosenTags = []\<rparr>\<rparr>"]
  by (simp only: getSuggestions_example_del) simp

text \<open>
  C8, as the filter does it. The empty query returns the catalog unchanged, and a
  catalog built by \<open>loadAllTags\<close> has the sentinel first. A non-empty query returns the
  entries other than the sentinel whose lower-case form contains the lower-case query,
  in the order of the catalog; when the query is a substring of \<open>clear\<close>, \<open>remove\<close>
  or \<open>delete\<close>, the sentinel precedes them.
\<close>

theorem getSuggestions_filter:
  "getSuggestions [] m = allTags m
   \<and> hd (getSuggestions [] (loadAllTags localeCompare allTagsObject m)) = CLEAR_TAG
   \<and> (query \<noteq> [] \<and> \<not> (sublist (toLowerCase query) ''clear'' \<or> sublist (toLowerCase query) ''remove''
                     \<or> sublist (toLowerCase query) ''delete'')
      \<longrightarrow> getSuggestions query m =
            filter (\<lambda>tag. tag \<noteq> CLEAR_TAG \<and> sublist (toLowerCase query) (toLowerCase tag)) (allTags m))
   \<and> (query \<noteq> [] \<and> (sublist (toLowerCase query) ''clear'' \<or> sublist (toLowerCase query) ''remove''
                     \<or> sublist (toLowerCase query) ''delete'')
      \<longrightarrow> getSuggestions query m =
            CLEAR_TAG # filter (\<lambda>tag. tag \<noteq> CLEAR_TAG \<and> sublist (toLowerCase query) (toLowerCase tag))
                          (allTags m))"
  by (simp add: getSuggestions_def loadAllTags_def includesStr_sublist Let_def)

lemma getSuggestions_example_b:
  "\<not> sublist (toLowerCase ''b'') ''clear''"
  "\<not> sublist (toLowerCase ''b'') ''remove''"
  "\<not> sublist (toLowerCase ''b'') ''delete''"
  "sublist (toLowerCase ''e'') ''clear''"
  "getSuggestions ''b'' \<lparr>editor = oneLine ''x #todo y'' 4, tagPosition = spanOn 0 (2, 7),
       allTags = [CLEAR_TAG, ''#a'', ''#B'', ''#eb''], settings = \<lparr>recentlyChosenTags = []\<rparr>\<rparr>
     = [''#B'', ''#eb'']"
  "getSuggestions ''e'' \<lparr>editor = oneLine ''x #todo y'' 4, tagPosition = spanOn 0 (2, 7),
       allTags = [CLEAR_TAG, ''#a'', ''#B'', ''#eb''], settings = \<lparr>recentlyChosenTags = []\<rparr>\<rparr>
     = [CLEAR_TAG, ''#eb'']"
  by code_simp+

theorem getSuggestions_filter_witness:
  "''b'' \<noteq> [] \<and> \<not> sublist (toLowerCase ''b'') ''clear'' \<and> \<not> sublist (toLowerCase ''b'') ''remove''
   \<and> \<not> sublist (toLowerCase ''b'') ''delete''
   \<and> getSuggestions ''b'' \<lparr>editor = oneLine ''x #todo y'' 4, tagPosition = spanOn 0 (2, 7),
         allTags = [CLEAR_TAG, ''#a'', ''#B'', ''#eb''], settings = \<lparr>recentlyChosenTags = []\<rparr>\<rparr>
       = [''#B'', ''#eb'']
   \<and> ''e'' \<noteq> [] \<and> sublist (toLowerCase ''e'') ''clear''
   \<and> getSuggestions ''e'' \<lparr>editor = oneLine ''x #todo y'' 4, tagPosition = spanOn 0 (2, 7),
         allTags = [CLEAR_TAG, ''#a'', ''#B'', ''#eb''], settings = \<lparr>recentlyChosenTags = []\<rparr>\<rparr>
       = [CLEAR_TAG, ''#eb'']"
  using getSuggestions_filter [of "\<lparr>editor = oneLine ''x #todo y'' 4, tagPosition = spanOn 0 (2, 7),
         allTags = [CLEAR_TAG, ''#a'', ''#B'', ''#eb''], settings = \<lparr>recentlyChosenTags = []\<rparr>\<rparr>"
         codeUnitCompare None "''b''"]
    getSuggestions_filter [of "\<lparr>editor = oneLine ''x #todo y'' 4, tagPosition = spanOn 0 (2, 7),
         allTags = [CLEAR_TAG, ''#a'', ''#B'', ''#eb''], settings = \<lparr>recentlyChosenTags = []\<rparr>\<rparr>"
         codeUnitCompare None "''e''"]
  by (simp only: getSuggestions_example_b) simp

text \<open>
  C8 as stated fails: for the catalog of the single vault tag \<open>#deal\<close> the non-empty
  query \<open>e\<close> returns the sentinel as well, not only the matching entry \<open>#deal\<close>.
\<close>

theorem getSuggestions_filter_counterexample:
  "''e'' \<noteq> []
   \<and> allTags (newTagSelectorModal codeUnitCompare (Some [(''#deal'', 1)])
        (oneLine ''x #todo y'' 4) (spanOn 0 (2, 7)) \<lparr>recentlyChosenTags = []\<rparr>) = [CLEAR_TAG, ''#deal'']
   \<and> getSuggestions ''e'' (newTagSelectorModal codeUnitCompare (Some [(''#deal'', 1)])
        (oneLine ''x #todo y'' 4) (spanOn 0 (2, 7)) \<lparr>recentlyChosenTags = []\<rparr>) = [CLEAR_TAG, ''#deal'']
   \<and> getSuggestions ''e'' (newTagSelectorModal codeUnitCompare (Some [(''#deal'', 1)])
        (oneLine ''x #todo y'' 4) (spanOn 0 (2, 7)) \<lparr>recentlyChosenTags = []\<rparr>) \<noteq> [''#deal'']"
  by code_simp

section \<open>Tag Catalog Builder\<close>

lemma mset_insertWith: "mset (insertWith cmp x ys) = add_mset x (mset ys)"
  by (induction ys) auto

lemma mset_sortWith: "mset (sortWith cmp xs) = mset xs"
  by (induction xs) (auto simp: sortWith_def mset_insertWith)

lemma set_sortWith: "set (sortWith cmp xs) = set xs"
  using mset_sortWith [of cmp xs] by (metis set_mset_mset)

lemma sorted_insertWith:
  assumes total: "\<forall>a b. cmp a b \<le> 0 \<or> cmp b a \<le> 0"
    and trans: "\<forall>a b c. cmp a b \<le> 0 \<and> cmp b c \<le> 0 \<longrightarrow> cmp a c \<le> 0"
  shows "sorted_wrt (\<lambda>a b. cmp a b \<le> 0) ys \<Longrightarrow> sorted_wrt (\<lambda>a b. cmp a b \<le> 0) (insertWith cmp x ys)"
proof (induction ys)
  case Nil
  then show ?case by simp
next
  case (Cons y ys)
  show ?case
  proof (cases "cmp x y \<le> 0")
    case True
    have "\<forall>z \<in> set ys. cmp x z \<le> 0"
      using Cons.prems True trans by (metis sorted_wrt.simps(2))
    with True Cons.prems show ?thesis by simp
  next
    case False
    then have yx: "cmp y x \<le> 0" using total by blast
    have "set (insertWith cmp x ys) = insert x (set ys)"
      using mset_insertWith [of cmp x ys] by (metis set_mset_mset set_mset_add_mset_insert)
    with False yx Cons show ?thesis by auto
  qed
qed

lemma sorted_sortWith:
  assumes "\<forall>a b. cmp a b \<le> 0 \<or> cmp b a \<le> 0"
    and "\<forall>a b c. cmp a b \<le> 0 \<and> cmp b c \<le> 0 \<longrightarrow> cmp a c \<le> 0"
  shows "sorted_wrt (\<lambda>a b. cmp a b \<le> 0) (sortWith cmp xs)"
proof (induction xs)
  case Nil
  then show ?case by (simp add: sortWith_def)
next
  case (Cons x xs)
  from sorted_insertWith [OF assms Cons, of x] show ?case
    by (simp add: sortWith_def)
qed

lemma allVaultTags_hash: "t \<in> set (allVaultTags obj) \<Longrightarrow> startsWith t ''#''"
  by (auto simp: allVaultTags_def split: option.splits if_splits)

lemma CLEAR_TAG_not_vault: "CLEAR_TAG \<notin> set (allVaultTags obj)"
  using allVaultTags_hash [of CLEAR_TAG obj] by (auto simp: CLEAR_TAG_def)

lemma remaining_filter:
  "filter (\<lambda>tag. tag \<notin> set (filter (\<lambda>tag. tag \<in> set vault) (rev recent))) vault =
     filter (\<lambda>tag. tag \<notin> set recent) vault"
  by (rule filter_cong) auto

lemma loadAllTags_allTags:
  "allTags (loadAllTags cmp obj m) =
     CLEAR_TAG # filter (\<lambda>t. t \<in> set (allVaultTags obj)) (rev (recentlyChosenTags (settings m)))
       @ sortWith cmp (filter (\<lambda>t. t \<notin> set (recentlyChosenTags (settings m))) (allVaultTags obj))"
  unfolding loadAllTags_def Let_def remaining_filter by simp

lemma loadAllTags_distinct:
  assumes "distinct (allVaultTags obj)" and "distinct (recentlyChosenTags (settings m))"
  shows "distinct (allTags (loadAllTags cmp obj m))"
proof -
  let ?valid = "filter (\<lambda>t. t \<in> set (allVaultTags obj)) (rev (recentlyChosenTags (settings m)))"
  let ?rem = "filter (\<lambda>t. t \<notin> set (recentlyChosenTags (settings m))) (allVaultTags obj)"
  have 1: "distinct ?valid" using assms(2) by simp
  have "distinct ?rem" using assms(1) by simp
  then have 2: "distinct (sortWith cmp ?rem)"
    using mset_sortWith [of cmp ?rem] by (metis mset_eq_imp_distinct_iff)
  have 3: "set ?valid \<inter> set (sortWith cmp ?rem) = {}"
    by (auto simp: set_sortWith)
  have 4: "CLEAR_TAG \<notin> set ?valid \<union> set (sortWith cmp ?rem)"
    using CLEAR_TAG_not_vault [of obj] by (auto simp: set_sortWith)
  show ?thesis
    unfolding loadAllTags_allTags using 1 2 3 4 by simp
qed

lemma codeUnitCompare_total: "\<forall>a b. codeUnitCompare a b \<le> 0 \<or> codeUnitCompare b a \<le> 0"
  by (auto simp: codeUnitCompare_def)

lemma codeUnitCompare_trans:
  "\<forall>a b c. codeUnitCompare a b \<le> 0 \<and> codeUnitCompare b c \<le> 0 \<longrightarrow> codeUnitCompare a c \<le> 0"
  by (auto simp: codeUnitCompare_def split: if_splits)


lemma filter_single:
  assumes "distinct xs" and "y \<in> set xs" and "P y" and "\<forall>x \<in> set xs. P x \<longrightarrow> x = y"
  shows "filter P xs = [y]"
proof -
  from assms(2) obtain ys zs where split: "xs = ys @ y # zs"
    by (meson split_list)
  from assms(1) split have ny: "y \<notin> set ys" and nz: "y \<notin> set zs" by auto
  have "filter P ys = []"
    unfolding filter_empty_conv using assms(4) ny split by fastforce
  moreover have "filter P zs = []"
    unfolding filter_empty_conv using assms(4) nz split by fastforce
  ultimately show ?thesis using split assms(3) by simp
qed

lemma vault_keys_example:
  assumes "distinct ks" and "set ks = {''#a'', ''#b'', ''#c''}"
  shows "map (\<lambda>tag. if startsWith tag ''#'' then tag else ''#'' @ tag) ks = ks"
    and "filter (\<lambda>t. t \<notin> set [''#c'', ''#a'']) ks = [''#b'']"
proof -
  have "\<And>tag. tag \<in> set ks \<Longrightarrow> startsWith tag ''#''"
    unfolding assms(2) by auto
  then show "map (\<lambda>tag. if startsWith tag ''#'' then tag else ''#'' @ tag) ks = ks"
    by (intro map_idI) presburger
  show "filter (\<lambda>t. t \<notin> set [''#c'', ''#a'']) ks = [''#b'']"
  proof (rule filter_single [OF assms(1)])
    show "''#b'' \<in> set ks" unfolding assms(2) by simp
    show "''#b'' \<notin> set [''#c'', ''#a'']" by simp
    show "\<forall>x \<in> set ks. x \<notin> set [''#c'', ''#a''] \<longrightarrow> x = ''#b''"
      unfolding assms(2) by simp
  qed
qed

lemma catalog_example:
  assumes "distinct (map fst obj)" and "set (map fst obj) = {''#a'', ''#b'', ''#c''}"
  shows "allTags (loadAllTags cmp (Some obj) (m\<lparr>settings := \<lparr>recentlyChosenTags = [''#c'', ''#a'']\<rparr>\<rparr>))
           = [CLEAR_TAG, ''#a'', ''#c'', ''#b'']"
proof -
  note ex = vault_keys_example [OF assms]
  have v: "allVaultTags (Some obj) = map fst obj"
    unfolding allVaultTags_def option.case ex(1) ..
  have s: "recentlyChosenTags (settings (m\<lparr>settings := \<lparr>recentlyChosenTags = [''#c'', ''#a'']\<rparr>\<rparr>))
             = [''#c'', ''#a'']"
    by simp
  have k: "filter (\<lambda>t. t \<in> set (map fst obj)) (rev [''#c'', ''#a'']) = [''#a'', ''#c'']"
    unfolding assms(2) by simp
  show ?thesis
    unfolding loadAllTags_allTags v s ex(2) k
    by (simp add: sortWith_def)
qed

text \<open>
  C1. Let the comparison be consistent (any two strings are comparable, and the
  comparison is transitive), let the vault tags be a set (no tag twice) and let the
  recency list have no duplicate. Then the catalog is the sentinel, then the reversed
  recency list restricted to the tags of the vault, then a rearrangement of the
  remaining vault tags that is sorted by the comparison; no entry of the catalog
  appears twice and the sentinel is first. For the vault tags \<open>#a\<close>, \<open>#b\<close>, \<open>#c\<close>, in any
  order of the keys, and the recency list \<open>#c\<close>, \<open>#a\<close> the catalog is the sentinel,
  \<open>#a\<close>, \<open>#c\<close>, \<open>#b\<close>, whatever the comparison.
\<close>

theorem loadAllTags_catalog:
  "((\<forall>a b. localeCompare a b \<le> 0 \<or> localeCompare b a \<le> 0)
     \<and> (\<forall>a b c. localeCompare a b \<le> 0 \<and> localeCompare b c \<le> 0 \<longrightarrow> localeCompare a c \<le> 0)
     \<and> distinct (allVaultTags obj) \<and> distinct (recentlyChosenTags (settings m))
    \<longrightarrow> (\<exists>rest. allTags (loadAllTags localeCompare obj m) =
                 CLEAR_TAG # filter (\<lambda>t. t \<in> set (allVaultTags obj)) (rev (recentlyChosenTags (settings m)))
                   @ rest
               \<and> sorted_wrt (\<lambda>a b. localeCompare a b \<le> 0) rest
               \<and> mset rest = mset (filter (\<lambda>t. t \<notin> set (recentlyChosenTags (settings m))) (allVaultTags obj)))
        \<and> distinct (allTags (loadAllTags localeCompare obj m))
        \<and> hd (allTags (loadAllTags localeCompare obj m)) = CLEAR_TAG)
   \<and> (distinct (map fst abc) \<and> set (map fst abc) = {''#a'', ''#b'', ''#c''}
    \<longrightarrow> allTags (loadAllTags localeCompare (Some abc) (m\<lparr>settings := \<lparr>recentlyChosenTags = [''#c'', ''#a'']\<rparr>\<rparr>))
          = [CLEAR_TAG, ''#a'', ''#c'', ''#b''])"
proof (intro conjI impI)
  assume a: "(\<forall>a b. localeCompare a b \<le> 0 \<or> localeCompare b a \<le> 0)
     \<and> (\<forall>a b c. localeCompare a b \<le> 0 \<and> localeCompare b c \<le> 0 \<longrightarrow> localeCompare a c \<le> 0)
     \<and> distinct (allVaultTags obj) \<and> distinct (recentlyChosenTags (settings m))"
  note total = conjunct1 [OF a]
  note trans = conjunct1 [OF conjunct2 [OF a]]
  note dv = conjunct1 [OF conjunct2 [OF conjunct2 [OF a]]]
  note dr = conjunct2 [OF conjunct2 [OF conjunct2 [OF a]]]
  let ?rest = "sortWith localeCompare
     (filter (\<lambda>t. t \<notin> set (recentlyChosenTags (settings m))) (allVaultTags obj))"
  have 1: "allTags (loadAllTags localeCompare obj m) =
                 CLEAR_TAG # filter (\<lambda>t. t \<in> set (allVaultTags obj)) (rev (recentlyChosenTags (settings m)))
                   @ ?rest"
    by (rule loadAllTags_allTags)
  have 2: "sorted_wrt (\<lambda>a b. localeCompare a b \<le> 0) ?rest"
    by (rule sorted_sortWith [OF total trans])
  have 3: "mset ?rest = mset (filter (\<lambda>t. t \<notin> set (recentlyChosenTags (settings m))) (allVaultTags obj))"
    by (rule mset_sortWith)
  show "\<exists>rest. allTags (loadAllTags localeCompare obj m) =
                 CLEAR_TAG # filter (\<lambda>t. t \<in> set (allVaultTags obj)) (rev (recentlyChosenTags (settings m)))
                   @ rest
               \<and> sorted_wrt (\<lambda>a b. localeCompare a b \<le> 0) rest
               \<and> mset rest = mset (filter (\<lambda>t. t \<notin> set (recentlyChosenTags (settings m))) (allVaultTags obj))"
    by (rule exI [of _ ?rest]) (intro conjI 1 2 3)
  show "distinct (allTags (loadAllTags localeCompare obj m))"
    by (rule loadAllTags_distinct [OF dv dr])
  show "hd (allTags (loadAllTags localeCompare obj m)) = CLEAR_TAG"
    unfolding 1 by simp
next
  assume b: "distinct (map fst abc) \<and> set (map fst abc) = {''#a'', ''#b'', ''#c''}"
  show "allTags (loadAllTags localeCompare (Some abc) (m\<lparr>settings := \<lparr>recentlyChosenTags = [''#c'', ''#a'']\<rparr>\<rparr>))
          = [CLEAR_TAG, ''#a'', ''#c'', ''#b'']"
    by (rule catalog_example [OF conjunct1 [OF b] conjunct2 [OF b]])
qed

lemma catalog_example_eval:
  "allVaultTags (Some [(''#d'', 1), (''b'', 2), (''#a'', 1), (''#c'', 3), (''#B'', 1)])
     = [''#d'', ''#b'', ''#a'', ''#c'', ''#B'']"
  "allTags (loadAllTags codeUnitCompare
      (Some [(''#d'', 1), (''b'', 2), (''#a'', 1), (''#c'', 3), (''#B'', 1)])
      \<lparr>editor = oneLine ''x #todo y'' 4, tagPosition = spanOn 0 (2, 7), allTags = [],
       settings = \<lparr>recentlyChosenTags = [''#c'', ''#gone'', ''#a'']\<rparr>\<rparr>)
     = [CLEAR_TAG, ''#a'', ''#c'', ''#B'', ''#b'', ''#d'']"
  "allTags (loadAllTags codeUnitCompare (Some [(''#b'', 2), (''#c'', 1), (''#a'', 5)])
      (\<lparr>editor = oneLine ''x #todo y'' 4, tagPosition = spanOn 0 (2, 7), allTags = [],
        settings = \<lparr>recentlyChosenTags = []\<rparr>\<rparr>\<lparr>settings := \<lparr>recentlyChosenTags = [''#c'', ''#a'']\<rparr>\<rparr>))
     = [CLEAR_TAG, ''#a'', ''#c'', ''#b'']"
  by code_simp+

theorem loadAllTags_catalog_witness:
  "distinct (allVaultTags (Some [(''#d'', 1), (''b'', 2), (''#a'', 1), (''#c'', 3), (''#B'', 1)]))
   \<and> distinct [''#c'', ''#gone'', ''#a'']
   \<and> allTags (loadAllTags codeUnitCompare
        (Some [(''#d'', 1), (''b'', 2), (''#a'', 1), (''#c'', 3), (''#B'', 1)])
        \<lparr>editor = oneLine ''x #todo y'' 4, tagPosition = spanOn 0 (2, 7), allTags = [],
         settings = \<lparr>recentlyChosenTags = [''#c'', ''#gone'', ''#a'']\<rparr>\<rparr>)
       = [CLEAR_TAG, ''#a'', ''#c'', ''#B'', ''#b'', ''#d'']
   \<and> distinct (map fst [(''#b'', 2::nat), (''#c'', 1), (''#a'', 5)])
   \<and> set (map fst [(''#b'', 2::nat), (''#c'', 1), (''#a'', 5)]) = {''#a'', ''#b'', ''#c''}
   \<and> allTags (loadAllTags codeUnitCompare (Some [(''#b'', 2), (''#c'', 1), (''#a'', 5)])
        (\<lparr>editor = oneLine ''x #todo y'' 4, tagPosition = spanOn 0 (2, 7), allTags = [],
          settings = \<lparr>recentlyChosenTags = []\<rparr>\<rparr>\<lparr>settings := \<lparr>recentlyChosenTags = [''#c'', ''#a'']\<rparr>\<rparr>))
       = [CLEAR_TAG, ''#a'', ''#c'', ''#b'']"
proof -
  let ?obj = "Some [(''#d'', 1), (''b'', 2), (''#a'', 1), (''#c'', 3), (''#B'', 1)]"
  let ?m = "\<lparr>editor = oneLine ''x #todo y'' 4, tagPosition = spanOn 0 (2, 7), allTags = [],
          settings = \<lparr>recentlyChosenTags = [''#c'', ''#gone'', ''#a'']\<rparr>\<rparr>"
  let ?abc = "[(''#b'', 2::nat), (''#c'', 1), (''#a'', 5)]"
  have c1: "distinct (allVaultTags ?obj)"
    unfolding catalog_example_eval(1) by simp
  have c2: "distinct [''#c'', ''#gone'', ''#a'']" by simp
  then have c2': "distinct (recentlyChosenTags (settings ?m))" by simp
  have c4: "distinct (map fst ?abc)" by simp
  have c5: "set (map fst ?abc) = {''#a'', ''#b'', ''#c''}" by auto
  note t = loadAllTags_catalog [of codeUnitCompare ?obj ?m ?abc]
  note g = mp [OF conjunct1 [OF t] conjI [OF codeUnitCompare_total
                 conjI [OF codeUnitCompare_trans conjI [OF c1 c2']]]]
  note e = mp [OF conjunct2 [OF t] conjI [OF c4 c5]]
  from g e show ?thesis
    by (simp only: c1 c2 c4 c5 catalog_example_eval(2,3) simp_thms)
qed

section \<open>Replacement Applier\<close>

lemma splitLines_no_break: "CHR 0x0A \<notin> set s \<Longrightarrow> splitLines s = [s]"
  by (induction s) auto

lemma matchPartial_bounds: "matchPartial s = Some (i, m) \<Longrightarrow> i + length m \<le> length s"
proof (induction s arbitrary: i)
  case Nil
  then show ?case by simp
next
  case (Cons c cs)
  show ?case
  proof (cases "c = CHR ''#''")
    case True
    with Cons.prems show ?thesis by (auto simp: length_takeWhile_le)
  next
    case False
    with Cons.prems obtain i' where "matchPartial cs = Some (i', m)" "i = Suc i'" by auto
    with Cons.IH show ?thesis by auto
  qed
qed

text \<open>A span that the handler opens the selector on lies inside the cursor's line.\<close>

lemma handleTagClick_inside:
  assumes "handleTagClick (Some ed) = Some tp"
  shows "\<exists>s e. line (cursor ed) < length (doc ed)
         \<and> tp = spanOn (line (cursor ed)) (s, e)
         \<and> s \<le> e \<and> e \<le> length (doc ed ! line (cursor ed))"
proof -
  let ?l = "line (cursor ed)"
  let ?L = "getLine ed ?l"
  have span: "\<exists>s e. tp = spanOn ?l (s, e) \<and> s \<le> e \<and> e \<le> length ?L"
  proof (cases "tagSpans ?L = []")
    case True
    with assms obtain i m where im: "matchPartial ?L = Some (i, m)" "tp = spanOn ?l (i, i + length m)"
      by (auto simp: handleTagClick_cases)
    from matchPartial_bounds [OF im(1)] have "i \<le> i + length m \<and> i + length m \<le> length ?L"
      by simp
    with im(2) show ?thesis by blast
  next
    case False
    with assms obtain se where se: "find (containsCursor (ch (cursor ed))) (tagSpans ?L) = Some se"
      "tp = spanOn ?l se"
      by (auto simp: handleTagClick_cases)
    from se(1) have "se \<in> set (tagSpans ?L)"
      by (auto simp: find_Some_iff)
    with tagSpans_bounds [of "fst se" "snd se" ?L] have "fst se \<le> snd se \<and> snd se \<le> length ?L"
      by simp
    with se(2) show ?thesis by (metis prod.collapse)
  qed
  then obtain s e where se: "tp = spanOn ?l (s, e)" "s \<le> e" "e \<le> length ?L" by blast
  have inside: "?l < length (doc ed)"
  proof (rule ccontr)
    assume "\<not> ?l < length (doc ed)"
    then have "?L = []" by (simp add: getLine_def)
    with assms show False
      by (simp add: handleTagClick_cases tagSpans_def)
  qed
  then have "?L = doc ed ! ?l" by (simp add: getLine_def)
  with se inside show ?thesis by auto
qed

lemma replaceRange_in_line:
  assumes "\<not> readOnly ed" and "l < length (doc ed)" and "s \<le> e" and "e \<le> length (doc ed ! l)"
  shows "replaceRange text \<lparr>line = l, ch = s\<rparr> \<lparr>line = l, ch = e\<rparr> ed =
           Inr (ed\<lparr>doc := take l (doc ed)
                           @ splitLines (take s (doc ed ! l) @ text @ drop e (doc ed ! l))
                           @ drop (Suc l) (doc ed)\<rparr>)"
  using assms by (simp add: replaceRange_def inDocument_def notAfter_def)

lemma line_update:
  "l < length D \<Longrightarrow> take l D @ [x] @ drop (Suc l) D = D[l := x]"
  by (simp add: upd_conv_take_nth_drop)

lemma onChooseSuggestion_located:
  assumes "\<not> readOnly (editor m)" and "handleTagClick (Some (editor m)) = Some (tagPosition m)"
  shows "replaceRange text (from_pos (tagPosition m)) (to_pos (tagPosition m)) (editor m) =
           Inr ((editor m)\<lparr>doc :=
                  take (line (cursor (editor m))) (doc (editor m))
                  @ splitLines (take (ch (from_pos (tagPosition m))) (doc (editor m) ! line (cursor (editor m)))
                                @ text
                                @ drop (ch (to_pos (tagPosition m))) (doc (editor m) ! line (cursor (editor m))))
                  @ drop (Suc (line (cursor (editor m)))) (doc (editor m))\<rparr>)"
    and "line (from_pos (tagPosition m)) = line (cursor (editor m))"
    and "line (cursor (editor m)) < length (doc (editor m))"
proof -
  from handleTagClick_inside [OF assms(2)] obtain s e where
    r: "line (cursor (editor m)) < length (doc (editor m))"
      "s \<le> e" "e \<le> length (doc (editor m) ! line (cursor (editor m)))"
    and tp: "tagPosition m = spanOn (line (cursor (editor m))) (s, e)"
    by blast
  have f: "from_pos (tagPosition m) = \<lparr>line = line (cursor (editor m)), ch = s\<rparr>"
    and t: "to_pos (tagPosition m) = \<lparr>line = line (cursor (editor m)), ch = e\<rparr>"
    unfolding tp by (simp_all add: spanOn_def)
  show "replaceRange text (from_pos (tagPosition m)) (to_pos (tagPosition m)) (editor m) =
           Inr ((editor m)\<lparr>doc :=
                  take (line (cursor (editor m))) (doc (editor m))
                  @ splitLines (take (ch (from_pos (tagPosition m))) (doc (editor m) ! line (cursor (editor m)))
                                @ text
                                @ drop (ch (to_pos (tagPosition m))) (doc (editor m) ! line (cursor (editor m))))
                  @ drop (Suc (line (cursor (editor m)))) (doc (editor m))\<rparr>)"
    using replaceRange_in_line [OF assms(1) r, of "text"] unfolding f t by simp
  show "line (from_pos (tagPosition m)) = line (cursor (editor m))"
    unfolding f by simp
  show "line (cursor (editor m)) < length (doc (editor m))" by (rule r(1))
qed

text \<open>
  C5, with the column that the handler computes. When a tag other than the sentinel
  is chosen on a span that the locator found in a writable document, the text of the
  span is replaced by the tag as it is: the line becomes the text before the span, the
  tag, and the text after the span (split again at line breaks, should there be any),
  the cursor is put on the same line at the start column of the span plus the length
  of the tag, and the tag is recorded in the recency list. On the line
  \<open>See #project/alpha and #todo\<close>, with the span of \<open>#project/alpha\<close>, choosing
  \<open>#done\<close> gives \<open>See #done and #todo\<close> with the cursor at column 9, that is 4 + 5.
\<close>

theorem onChooseSuggestion_replace:
  "(tag \<noteq> CLEAR_TAG \<and> \<not> readOnly (editor m)
      \<and> handleTagClick (Some (editor m)) = Some (tagPosition m)
    \<longrightarrow> (let l = line (cursor (editor m));
              s = ch (from_pos (tagPosition m));
              e = ch (to_pos (tagPosition m));
              D = doc (editor m);
              L = D ! l
          in onChooseSuggestion tag m =
               (None, m\<lparr>editor := (editor m)\<lparr>
                          doc := take l D @ splitLines (take s L @ tag @ drop e L) @ drop (Suc l) D,
                          cursor := \<lparr>line = l, ch = s + length tag\<rparr>\<rparr>,
                        settings := updateRecentlyChosenTags tag (settings m)\<rparr>)
             \<and> (CHR 0x0A \<notin> set tag \<and> CHR 0x0A \<notin> set L
                \<longrightarrow> doc (editor (snd (onChooseSuggestion tag m))) = D[l := take s L @ tag @ drop e L])))
   \<and> handleTagClick (Some (oneLine ''See #project/alpha and #todo'' 6)) = Some (spanOn 0 (4, 18))
   \<and> onChooseSuggestion ''#done''
        \<lparr>editor = oneLine ''See #project/alpha and #todo'' 6, tagPosition = spanOn 0 (4, 18),
         allTags = [], settings = \<lparr>recentlyChosenTags = []\<rparr>\<rparr>
       = (None, \<lparr>editor = \<lparr>doc = [''See #done and #todo''], cursor = \<lparr>line = 0, ch = 9\<rparr>,
                            readOnly = False\<rparr>,
                 tagPosition = spanOn 0 (4, 18), allTags = [],
                 settings = \<lparr>recentlyChosenTags = [''#done'']\<rparr>\<rparr>)"
proof (intro conjI impI)
  assume a: "tag \<noteq> CLEAR_TAG \<and> \<not> readOnly (editor m)
      \<and> handleTagClick (Some (editor m)) = Some (tagPosition m)"
  note loc = onChooseSuggestion_located [OF conjunct1 [OF conjunct2 [OF a]] conjunct2 [OF conjunct2 [OF a]]]
  have r: "onChooseSuggestion tag m =
      (None, m\<lparr>editor := (editor m)\<lparr>
                 doc := take (line (cursor (editor m))) (doc (editor m))
                  @ splitLines (take (ch (from_pos (tagPosition m))) (doc (editor m) ! line (cursor (editor m)))
                                @ tag
                                @ drop (ch (to_pos (tagPosition m))) (doc (editor m) ! line (cursor (editor m))))
                  @ drop (Suc (line (cursor (editor m)))) (doc (editor m)),
                 cursor := \<lparr>line = line (cursor (editor m)), ch = ch (from_pos (tagPosition m)) + length tag\<rparr>\<rparr>,
               settings := updateRecentlyChosenTags tag (settings m)\<rparr>)"
    using a by (simp add: onChooseSuggestion_def loc(1,2) setCursor_def Let_def)
  have u: "CHR 0x0A \<notin> set tag \<and> CHR 0x0A \<notin> set (doc (editor m) ! line (cursor (editor m)))
     \<longrightarrow> doc (editor (snd (onChooseSuggestion tag m))) =
          (doc (editor m))[line (cursor (editor m)) :=
             take (ch (from_pos (tagPosition m))) (doc (editor m) ! line (cursor (editor m))) @ tag
             @ drop (ch (to_pos (tagPosition m))) (doc (editor m) ! line (cursor (editor m)))]"
  proof
    assume n: "CHR 0x0A \<notin> set tag \<and> CHR 0x0A \<notin> set (doc (editor m) ! line (cursor (editor m)))"
    have "CHR 0x0A \<notin> set (take (ch (from_pos (tagPosition m))) (doc (editor m) ! line (cursor (editor m))) @ tag
             @ drop (ch (to_pos (tagPosition m))) (doc (editor m) ! line (cursor (editor m))))"
      using n by (auto dest: in_set_takeD in_set_dropD)
    from splitLines_no_break [OF this] show "doc (editor (snd (onChooseSuggestion tag m))) =
          (doc (editor m))[line (cursor (editor m)) :=
             take (ch (from_pos (tagPosition m))) (doc (editor m) ! line (cursor (editor m))) @ tag
             @ drop (ch (to_pos (tagPosition m))) (doc (editor m) ! line (cursor (editor m)))]"
      unfolding r using line_update [OF loc(3)] by simp
  qed
  show "let l = line (cursor (editor m));
              s = ch (from_pos (tagPosition m));
              e = ch (to_pos (tagPosition m));
              D = doc (editor m);
              L = D ! l
          in onChooseSuggestion tag m =
               (None, m\<lparr>editor := (editor m)\<lparr>
                          doc := take l D @ splitLines (take s L @ tag @ drop e L) @ drop (Suc l) D,
                          cursor := \<lparr>line = l, ch = s + length tag\<rparr>\<rparr>,
                        settings := updateRecentlyChosenTags tag (settings m)\<rparr>)
             \<and> (CHR 0x0A \<notin> set tag \<and> CHR 0x0A \<notin> set L
                \<longrightarrow> doc (editor (snd (onChooseSuggestion tag m))) = D[l := take s L @ tag @ drop e L])"
    unfolding Let_def using r u by (rule conjI)
next
  show "handleTagClick (Some (oneLine ''See #project/alpha and #todo'' 6)) = Some (spanOn 0 (4, 18))"
    by code_simp
  show "onChooseSuggestion ''#done''
        \<lparr>editor = oneLine ''See #project/alpha and #todo'' 6, tagPosition = spanOn 0 (4, 18),
         allTags = [], settings = \<lparr>recentlyChosenTags = []\<rparr>\<rparr>
       = (None, \<lparr>editor = \<lparr>doc = [''See #done and #todo''], cursor = \<lparr>line = 0, ch = 9\<rparr>,
                            readOnly = False\<rparr>,
                 tagPosition = spanOn 0 (4, 18), allTags = [],
                 settings = \<lparr>recentlyChosenTags = [''#done'']\<rparr>\<rparr>)"
    by code_simp
qed

lemma replace_example:
  "''#new/x'' \<noteq> CLEAR_TAG"
  "handleTagClick (Some \<lparr>doc = [''first'', ''tag: #old!''], cursor = \<lparr>line = 1, ch = 7\<rparr>,
                          readOnly = False\<rparr>) = Some (spanOn 1 (5, 9))"
  "onChooseSuggestion ''#new/x''
     \<lparr>editor = \<lparr>doc = [''first'', ''tag: #old!''], cursor = \<lparr>line = 1, ch = 7\<rparr>, readOnly = False\<rparr>,
      tagPosition = spanOn 1 (5, 9), allTags = [], settings = \<lparr>recentlyChosenTags = [''#a'']\<rparr>\<rparr>
   = (None, \<lparr>editor = \<lparr>doc = [''first'', ''tag: #new/x!''], cursor = \<lparr>line = 1, ch = 11\<rparr>,
                        readOnly = False\<rparr>,
             tagPosition = spanOn 1 (5, 9), allTags = [],
             settings = \<lparr>recentlyChosenTags = [''#a'', ''#new/x'']\<rparr>\<rparr>)"
  "CHR 0x0A \<notin> set ''#new/x''"
  "CHR 0x0A \<notin> set ''tag: #old!''"
  by code_simp+

theorem onChooseSuggestion_replace_witness:
  "''#new/x'' \<noteq> CLEAR_TAG
   \<and> handleTagClick (Some \<lparr>doc = [''first'', ''tag: #old!''], cursor = \<lparr>line = 1, ch = 7\<rparr>,
                          readOnly = False\<rparr>) = Some (spanOn 1 (5, 9))
   \<and> CHR 0x0A \<notin> set ''#new/x'' \<and> CHR 0x0A \<notin> set ''tag: #old!''
   \<and> onChooseSuggestion ''#new/x''
        \<lparr>editor = \<lparr>doc = [''first'', ''tag: #old!''], cursor = \<lparr>line = 1, ch = 7\<rparr>, readOnly = False\<rparr>,
         tagPosition = spanOn 1 (5, 9), allTags = [], settings = \<lparr>recentlyChosenTags = [''#a'']\<rparr>\<rparr>
       = (None, \<lparr>editor = \<lparr>doc = [''first'', ''tag: #new/x!''], cursor = \<lparr>line = 1, ch = 11\<rparr>,
                           readOnly = False\<rparr>,
                 tagPosition = spanOn 1 (5, 9), allTags = [],
                 settings = \<lparr>recentlyChosenTags = [''#a'', ''#new/x'']\<rparr>\<rparr>)"
  using onChooseSuggestion_replace [of "''#new/x''"
      "\<lparr>editor = \<lparr>doc = [''first'', ''tag: #old!''], cursor = \<lparr>line = 1, ch = 7\<rparr>, readOnly = False\<rparr>,
        tagPosition = spanOn 1 (5, 9), allTags = [], settings = \<lparr>recentlyChosenTags = [''#a'']\<rparr>\<rparr>"]
  by (simp only: replace_example simp_thms)

text \<open>
  C5 as stated fails in its example: after \<open>#done\<close> is chosen the cursor is at column
  9, not at column 10.
\<close>

theorem onChooseSuggestion_replace_counterexample:
  "handleTagClick (Some (oneLine ''See #project/alpha and #todo'' 6)) = Some (spanOn 0 (4, 18))
   \<and> doc (editor (snd (onChooseSuggestion ''#done''
        \<lparr>editor = oneLine ''See #project/alpha and #todo'' 6, tagPosition = spanOn 0 (4, 18),
         allTags = [], settings = \<lparr>recentlyChosenTags = []\<rparr>\<rparr>))) = [''See #done and #todo'']
   \<and> cursor (editor (snd (onChooseSuggestion ''#done''
        \<lparr>editor = oneLine ''See #project/alpha and #todo'' 6, tagPosition = spanOn 0 (4, 18),
         allTags = [], settings = \<lparr>recentlyChosenTags = []\<rparr>\<rparr>))) = \<lparr>line = 0, ch = 9\<rparr>
   \<and> ch (cursor (editor (snd (onChooseSuggestion ''#done''
        \<lparr>editor = oneLine ''See #project/alpha and #todo'' 6, tagPosition = spanOn 0 (4, 18),
         allTags = [], settings = \<lparr>recentlyChosenTags = []\<rparr>\<rparr>)))) \<noteq> 10"
  by code_simp

text \<open>
  C6. When the sentinel is chosen on a span that the locator found in a writable
  document, the text of the span is deleted: the line becomes the text before the span
  followed by the text after it, the cursor is put at the start of the span, and the
  recency list is what it was; the recency list is untouched by the sentinel in every
  case. Clearing the span of \<open>#todo\<close> in \<open>x #todo y\<close> gives the line \<open>x\<close>, two blanks,
  \<open>y\<close>, with the cursor at column 2, where \<open>#todo\<close> began.
\<close>

theorem onChooseSuggestion_clear:
  "(\<not> readOnly (editor m) \<and> handleTagClick (Some (editor m)) = Some (tagPosition m)
    \<longrightarrow> (let l = line (cursor (editor m));
              s = ch (from_pos (tagPosition m));
              e = ch (to_pos (tagPosition m));
              D = doc (editor m);
              L = D ! l
          in onChooseSuggestion CLEAR_TAG m =
               (None, m\<lparr>editor := (editor m)\<lparr>
                          doc := take l D @ splitLines (take s L @ drop e L) @ drop (Suc l) D,
                          cursor := \<lparr>line = l, ch = s\<rparr>\<rparr>\<rparr>)
             \<and> from_pos (tagPosition m) = \<lparr>line = l, ch = s\<rparr>
             \<and> (CHR 0x0A \<notin> set L
                \<longrightarrow> doc (editor (snd (onChooseSuggestion CLEAR_TAG m))) = D[l := take s L @ drop e L])))
   \<and> settings (snd (onChooseSuggestion CLEAR_TAG m)) = settings m
   \<and> handleTagClick (Some (oneLine ''x #todo y'' 4)) = Some (spanOn 0 (2, 7))
   \<and> onChooseSuggestion CLEAR_TAG
        \<lparr>editor = oneLine ''x #todo y'' 4, tagPosition = spanOn 0 (2, 7),
         allTags = [], settings = \<lparr>recentlyChosenTags = [''#todo'']\<rparr>\<rparr>
       = (None, \<lparr>editor = \<lparr>doc = [''x  y''], cursor = \<lparr>line = 0, ch = 2\<rparr>, readOnly = False\<rparr>,
                 tagPosition = spanOn 0 (2, 7), allTags = [],
                 settings = \<lparr>recentlyChosenTags = [''#todo'']\<rparr>\<rparr>)"
proof (intro conjI impI)
  assume a: "\<not> readOnly (editor m) \<and> handleTagClick (Some (editor m)) = Some (tagPosition m)"
  note loc = onChooseSuggestion_located [OF conjunct1 [OF a] conjunct2 [OF a]]
  have f: "from_pos (tagPosition m) = \<lparr>line = line (cursor (editor m)), ch = ch (from_pos (tagPosition m))\<rparr>"
    using loc(2) by (metis EditorPosition.surjective old.unit.exhaust)
  have r: "onChooseSuggestion CLEAR_TAG m =
      (None, m\<lparr>editor := (editor m)\<lparr>
                 doc := take (line (cursor (editor m))) (doc (editor m))
                  @ splitLines (take (ch (from_pos (tagPosition m))) (doc (editor m) ! line (cursor (editor m)))
                                @ drop (ch (to_pos (tagPosition m))) (doc (editor m) ! line (cursor (editor m))))
                  @ drop (Suc (line (cursor (editor m)))) (doc (editor m)),
                 cursor := \<lparr>line = line (cursor (editor m)), ch = ch (from_pos (tagPosition m))\<rparr>\<rparr>\<rparr>)"
    using loc(1) [of "[]"] f by (simp add: onChooseSuggestion_def setCursor_def)
  have u: "CHR 0x0A \<notin> set (doc (editor m) ! line (cursor (editor m)))
     \<longrightarrow> doc (editor (snd (onChooseSuggestion CLEAR_TAG m))) =
          (doc (editor m))[line (cursor (editor m)) :=
             take (ch (from_pos (tagPosition m))) (doc (editor m) ! line (cursor (editor m)))
             @ drop (ch (to_pos (tagPosition m))) (doc (editor m) ! line (cursor (editor m)))]"
  proof
    assume n: "CHR 0x0A \<notin> set (doc (editor m) ! line (cursor (editor m)))"
    have "CHR 0x0A \<notin> set (take (ch (from_pos (tagPosition m))) (doc (editor m) ! line (cursor (editor m)))
             @ drop (ch (to_pos (tagPosition m))) (doc (editor m) ! line (cursor (editor m))))"
      using n by (auto dest: in_set_takeD in_set_dropD)
    from splitLines_no_break [OF this] show "doc (editor (snd (onChooseSuggestion CLEAR_TAG m))) =
          (doc (editor m))[line (cursor (editor m)) :=
             take (ch (from_pos (tagPosition m))) (doc (editor m) ! line (cursor (editor m)))
             @ drop (ch (to_pos (tagPosition m))) (doc (editor m) ! line (cursor (editor m)))]"
      unfolding r using line_update [OF loc(3)] by simp
  qed
  show "let l = line (cursor (editor m));
              s = ch (from_pos (tagPosition m));
              e = ch (to_pos (tagPosition m));
              D = doc (editor m);
              L = D ! l
          in onChooseSuggestion CLEAR_TAG m =
               (None, m\<lparr>editor := (editor m)\<lparr>
                          doc := take l D @ splitLines (take s L @ drop e L) @ drop (Suc l) D,
                          cursor := \<lparr>line = l, ch = s\<rparr>\<rparr>\<rparr>)
             \<and> from_pos (tagPosition m) = \<lparr>line = l, ch = s\<rparr>
             \<and> (CHR 0x0A \<notin> set L
                \<longrightarrow> doc (editor (snd (onChooseSuggestion CLEAR_TAG m))) = D[l := take s L @ drop e L])"
    unfolding Let_def using r f u by (intro conjI)
next
  show "settings (snd (onChooseSuggestion CLEAR_TAG m)) = settings m"
    by (simp add: onChooseSuggestion_def split: sum.splits)
  show "handleTagClick (Some (oneLine ''x #todo y'' 4)) = Some (spanOn 0 (2, 7))"
    by code_simp
  show "onChooseSuggestion CLEAR_TAG
        \<lparr>editor = oneLine ''x #todo y'' 4, tagPosition = spanOn 0 (2, 7),
         allTags = [], settings = \<lparr>recentlyChosenTags = [''#todo'']\<rparr>\<rparr>
       = (None, \<lparr>editor = \<lparr>doc = [''x  y''], cursor = \<lparr>line = 0, ch = 2\<rparr>, readOnly = False\<rparr>,
                 tagPosition = spanOn 0 (2, 7), allTags = [],
                 settings = \<lparr>recentlyChosenTags = [''#todo'']\<rparr>\<rparr>)"
    by code_simp
qed

lemma clear_example:
  "handleTagClick (Some \<lparr>doc = [''first'', ''tag: #old!''], cursor = \<lparr>line = 1, ch = 9\<rparr>,
                          readOnly = False\<rparr>) = Some (spanOn 1 (5, 9))"
  "onChooseSuggestion CLEAR_TAG
     \<lparr>editor = \<lparr>doc = [''first'', ''tag: #old!''], cursor = \<lparr>line = 1, ch = 9\<rparr>, readOnly = False\<rparr>,
      tagPosition = spanOn 1 (5, 9), allTags = [], settings = \<lparr>recentlyChosenTags = [''#a'']\<rparr>\<rparr>
   = (None, \<lparr>editor = \<lparr>doc = [''first'', ''tag: !''], cursor = \<lparr>line = 1, ch = 5\<rparr>,
                        readOnly = False\<rparr>,
             tagPosition = spanOn 1 (5, 9), allTags = [],
             settings = \<lparr>recentlyChosenTags = [''#a'']\<rparr>\<rparr>)"
  "CHR 0x0A \<notin> set ''tag: #old!''"
  by code_simp+

theorem onChooseSuggestion_clear_witness:
  "handleTagClick (Some \<lparr>doc = [''first'', ''tag: #old!''], cursor = \<lparr>line = 1, ch = 9\<rparr>,
                          readOnly = False\<rparr>) = Some (spanOn 1 (5, 9))
   \<and> CHR 0x0A \<notin> set ''tag: #old!''
   \<and> onChooseSuggestion CLEAR_TAG
        \<lparr>editor = \<lparr>doc = [''first'', ''tag: #old!''], cursor = \<lparr>line = 1, ch = 9\<rparr>, readOnly = False\<rparr>,
         tagPosition = spanOn 1 (5, 9), allTags = [], settings = \<lparr>recentlyChosenTags = [''#a'']\<rparr>\<rparr>
       = (None, \<lparr>editor = \<lparr>doc = [''first'', ''tag: !''], cursor = \<lparr>line = 1, ch = 5\<rparr>,
                           readOnly = False\<rparr>,
                 tagPosition = spanOn 1 (5, 9), allTags = [],
                 settings = \<lparr>recentlyChosenTags = [''#a'']\<rparr>\<rparr>)"
  using onChooseSuggestion_clear [of
      "\<lparr>editor = \<lparr>doc = [''first'', ''tag: #old!''], cursor = \<lparr>line = 1, ch = 9\<rparr>, readOnly = False\<rparr>,
        tagPosition = spanOn 1 (5, 9), allTags = [], settings = \<lparr>recentlyChosenTags = [''#a'']\<rparr>\<rparr>"]
  by (simp only: clear_example simp_thms)

lemma onChooseSuggestion_With:
  "onChooseSuggestion tag m = onChooseSuggestionWith replaceRange tag m"
  by (simp add: onChooseSuggestion_def onChooseSuggestionWith_def)

text \<open>
  C9, as the handler does it. The replacement is the first call of the handler, and
  the handler never looks at its outcome. For every host: if the call raises an error,
  the handler ends with that error and the whole state is as before, with no cursor
  move and no change of the recency list; if the call returns, the handler goes on,
  whatever document the call left: it moves the cursor and, for a choice other than the
  sentinel, records the tag. So the recency list differs afterwards only if the call
  returned. With the host that raises in the read-only state, choosing on a read-only
  document changes nothing.
\<close>

theorem onChooseSuggestion_rejected:
  "(host (if tag = CLEAR_TAG then [] else tag)
        (from_pos (tagPosition m)) (to_pos (tagPosition m)) (editor m) = Inl err
      \<longrightarrow> onChooseSuggestionWith host tag m = (Some err, m))
   \<and> (host (if tag = CLEAR_TAG then [] else tag)
        (from_pos (tagPosition m)) (to_pos (tagPosition m)) (editor m) = Inr ed
      \<longrightarrow> onChooseSuggestionWith host tag m =
            (None, m\<lparr>editor := setCursor
                        (if tag = CLEAR_TAG then from_pos (tagPosition m)
                         else \<lparr>line = line (from_pos (tagPosition m)),
                               ch = ch (from_pos (tagPosition m)) + length tag\<rparr>) ed,
                      settings := (if tag = CLEAR_TAG then settings m
                                   else updateRecentlyChosenTags tag (settings m))\<rparr>))
   \<and> (settings (snd (onChooseSuggestionWith host tag m)) \<noteq> settings m
      \<longrightarrow> tag \<noteq> CLEAR_TAG \<and> fst (onChooseSuggestionWith host tag m) = None
          \<and> (\<exists>ed'. host tag (from_pos (tagPosition m)) (to_pos (tagPosition m)) (editor m) = Inr ed'))
   \<and> onChooseSuggestion tag m = onChooseSuggestionWith replaceRange tag m
   \<and> (readOnly (editor m) \<longrightarrow> onChooseSuggestion tag m = (Some MutationRejected, m))"
proof (intro conjI impI)
  assume "host (if tag = CLEAR_TAG then [] else tag)
        (from_pos (tagPosition m)) (to_pos (tagPosition m)) (editor m) = Inl err"
  then show "onChooseSuggestionWith host tag m = (Some err, m)"
    by (simp add: onChooseSuggestionWith_def split: if_splits)
next
  assume r: "host (if tag = CLEAR_TAG then [] else tag)
        (from_pos (tagPosition m)) (to_pos (tagPosition m)) (editor m) = Inr ed"
  show "onChooseSuggestionWith host tag m =
            (None, m\<lparr>editor := setCursor
                        (if tag = CLEAR_TAG then from_pos (tagPosition m)
                         else \<lparr>line = line (from_pos (tagPosition m)),
                               ch = ch (from_pos (tagPosition m)) + length tag\<rparr>) ed,
                      settings := (if tag = CLEAR_TAG then settings m
                                   else updateRecentlyChosenTags tag (settings m))\<rparr>)"
  proof (cases "tag = CLEAR_TAG")
    case True
    with r show ?thesis
      by (simp add: onChooseSuggestionWith_def)
  next
    case False
    with r show ?thesis
      by (simp add: onChooseSuggestionWith_def Let_def)
  qed
next
  assume a: "settings (snd (onChooseSuggestionWith host tag m)) \<noteq> settings m"
  then show nc: "tag \<noteq> CLEAR_TAG"
    by (auto simp: onChooseSuggestionWith_def split: sum.splits)
  with a obtain ed' where ed:
    "host tag (from_pos (tagPosition m)) (to_pos (tagPosition m)) (editor m) = Inr ed'"
    by (cases "host tag (from_pos (tagPosition m)) (to_pos (tagPosition m)) (editor m)")
       (auto simp: onChooseSuggestionWith_def)
  with nc show "fst (onChooseSuggestionWith host tag m) = None"
    by (simp add: onChooseSuggestionWith_def Let_def)
  from ed show "\<exists>ed'. host tag (from_pos (tagPosition m)) (to_pos (tagPosition m)) (editor m) = Inr ed'"
    by blast
next
  show "onChooseSuggestion tag m = onChooseSuggestionWith replaceRange tag m"
    by (rule onChooseSuggestion_With)
next
  assume "readOnly (editor m)"
  then show "onChooseSuggestion tag m = (Some MutationRejected, m)"
    by (simp add: onChooseSuggestion_def replaceRange_def)
qed

lemma rejected_example:
  "replaceRange (if ''#done'' = CLEAR_TAG then [] else ''#done'')
     (from_pos (tagPosition
        \<lparr>editor = \<lparr>doc = [''x #todo y''], cursor = \<lparr>line = 0, ch = 4\<rparr>, readOnly = True\<rparr>,
         tagPosition = spanOn 0 (2, 7), allTags = [], settings = \<lparr>recentlyChosenTags = [''#a'']\<rparr>\<rparr>))
     (to_pos (tagPosition
        \<lparr>editor = \<lparr>doc = [''x #todo y''], cursor = \<lparr>line = 0, ch = 4\<rparr>, readOnly = True\<rparr>,
         tagPosition = spanOn 0 (2, 7), allTags = [], settings = \<lparr>recentlyChosenTags = [''#a'']\<rparr>\<rparr>))
     (editor
        \<lparr>editor = \<lparr>doc = [''x #todo y''], cursor = \<lparr>line = 0, ch = 4\<rparr>, readOnly = True\<rparr>,
         tagPosition = spanOn 0 (2, 7), allTags = [], settings = \<lparr>recentlyChosenTags = [''#a'']\<rparr>\<rparr>)
   = Inl MutationRejected"
  "readOnly (editor
        \<lparr>editor = \<lparr>doc = [''x #todo y''], cursor = \<lparr>line = 0, ch = 4\<rparr>, readOnly = True\<rparr>,
         tagPosition = spanOn 0 (2, 7), allTags = [], settings = \<lparr>recentlyChosenTags = [''#a'']\<rparr>\<rparr>)"
  "onChooseSuggestionWith replaceRange ''#done''
        \<lparr>editor = \<lparr>doc = [''x #todo y''], cursor = \<lparr>line = 0, ch = 4\<rparr>, readOnly = True\<rparr>,
         tagPosition = spanOn 0 (2, 7), allTags = [], settings = \<lparr>recentlyChosenTags = [''#a'']\<rparr>\<rparr>
   = (Some MutationRejected,
        \<lparr>editor = \<lparr>doc = [''x #todo y''], cursor = \<lparr>line = 0, ch = 4\<rparr>, readOnly = True\<rparr>,
         tagPosition = spanOn 0 (2, 7), allTags = [], settings = \<lparr>recentlyChosenTags = [''#a'']\<rparr>\<rparr>)"
  "onChooseSuggestion ''#done''
        \<lparr>editor = \<lparr>doc = [''x #todo y''], cursor = \<lparr>line = 0, ch = 4\<rparr>, readOnly = True\<rparr>,
         tagPosition = spanOn 0 (2, 7), allTags = [], settings = \<lparr>recentlyChosenTags = [''#a'']\<rparr>\<rparr>
   = (Some MutationRejected,
        \<lparr>editor = \<lparr>doc = [''x #todo y''], cursor = \<lparr>line = 0, ch = 4\<rparr>, readOnly = True\<rparr>,
         tagPosition = spanOn 0 (2, 7), allTags = [], settings = \<lparr>recentlyChosenTags = [''#a'']\<rparr>\<rparr>)"
  by code_simp+

lemma ignoring_example:
  "replaceRangeIgnoring (if ''#done'' = CLEAR_TAG then [] else ''#done'')
     (from_pos (tagPosition
        \<lparr>editor = \<lparr>doc = [''x #todo y''], cursor = \<lparr>line = 0, ch = 4\<rparr>, readOnly = True\<rparr>,
         tagPosition = spanOn 0 (2, 7), allTags = [], settings = \<lparr>recentlyChosenTags = [''#a'']\<rparr>\<rparr>))
     (to_pos (tagPosition
        \<lparr>editor = \<lparr>doc = [''x #todo y''], cursor = \<lparr>line = 0, ch = 4\<rparr>, readOnly = True\<rparr>,
         tagPosition = spanOn 0 (2, 7), allTags = [], settings = \<lparr>recentlyChosenTags = [''#a'']\<rparr>\<rparr>))
     (editor
        \<lparr>editor = \<lparr>doc = [''x #todo y''], cursor = \<lparr>line = 0, ch = 4\<rparr>, readOnly = True\<rparr>,
         tagPosition = spanOn 0 (2, 7), allTags = [], settings = \<lparr>recentlyChosenTags = [''#a'']\<rparr>\<rparr>)
   = Inr \<lparr>doc = [''x #todo y''], cursor = \<lparr>line = 0, ch = 4\<rparr>, readOnly = True\<rparr>"
  "onChooseSuggestionWith replaceRangeIgnoring ''#done''
        \<lparr>editor = \<lparr>doc = [''x #todo y''], cursor = \<lparr>line = 0, ch = 4\<rparr>, readOnly = True\<rparr>,
         tagPosition = spanOn 0 (2, 7), allTags = [], settings = \<lparr>recentlyChosenTags = [''#a'']\<rparr>\<rparr>
   = (None,
        \<lparr>editor = \<lparr>doc = [''x #todo y''], cursor = \<lparr>line = 0, ch = 7\<rparr>, readOnly = True\<rparr>,
         tagPosition = spanOn 0 (2, 7), allTags = [],
         settings = \<lparr>recentlyChosenTags = [''#a'', ''#done'']\<rparr>\<rparr>)"
  by code_simp+

theorem onChooseSuggestion_rejected_witness:
  "onChooseSuggestionWith replaceRange ''#done''
        \<lparr>editor = \<lparr>doc = [''x #todo y''], cursor = \<lparr>line = 0, ch = 4\<rparr>, readOnly = True\<rparr>,
         tagPosition = spanOn 0 (2, 7), allTags = [], settings = \<lparr>recentlyChosenTags = [''#a'']\<rparr>\<rparr>
   = (Some MutationRejected,
        \<lparr>editor = \<lparr>doc = [''x #todo y''], cursor = \<lparr>line = 0, ch = 4\<rparr>, readOnly = True\<rparr>,
         tagPosition = spanOn 0 (2, 7), allTags = [], settings = \<lparr>recentlyChosenTags = [''#a'']\<rparr>\<rparr>)
   \<and> onChooseSuggestion ''#done''
        \<lparr>editor = \<lparr>doc = [''x #todo y''], cursor = \<lparr>line = 0, ch = 4\<rparr>, readOnly = True\<rparr>,
         tagPosition = spanOn 0 (2, 7), allTags = [], settings = \<lparr>recentlyChosenTags = [''#a'']\<rparr>\<rparr>
   = (Some MutationRejected,
        \<lparr>editor = \<lparr>doc = [''x #todo y''], cursor = \<lparr>line = 0, ch = 4\<rparr>, readOnly = True\<rparr>,
         tagPosition = spanOn 0 (2, 7), allTags = [], settings = \<lparr>recentlyChosenTags = [''#a'']\<rparr>\<rparr>)
   \<and> onChooseSuggestionWith replaceRangeIgnoring ''#done''
        \<lparr>editor = \<lparr>doc = [''x #todo y''], cursor = \<lparr>line = 0, ch = 4\<rparr>, readOnly = True\<rparr>,
         tagPosition = spanOn 0 (2, 7), allTags = [], settings = \<lparr>recentlyChosenTags = [''#a'']\<rparr>\<rparr>
   = (None,
        \<lparr>editor = \<lparr>doc = [''x #todo y''], cursor = \<lparr>line = 0, ch = 7\<rparr>, readOnly = True\<rparr>,
         tagPosition = spanOn 0 (2, 7), allTags = [],
         settings = \<lparr>recentlyChosenTags = [''#a'', ''#done'']\<rparr>\<rparr>)"
proof -
  let ?m = "\<lparr>editor = \<lparr>doc = [''x #todo y''], cursor = \<lparr>line = 0, ch = 4\<rparr>, readOnly = True\<rparr>,
         tagPosition = spanOn 0 (2, 7), allTags = [], settings = \<lparr>recentlyChosenTags = [''#a'']\<rparr>\<rparr>"
  let ?ed = "\<lparr>doc = [''x #todo y''], cursor = \<lparr>line = 0, ch = 4\<rparr>, readOnly = True\<rparr>"
  note raising = onChooseSuggestion_rejected [of replaceRange "''#done''" ?m MutationRejected ?ed]
  note ignoring = onChooseSuggestion_rejected [of replaceRangeIgnoring "''#done''" ?m MutationRejected ?ed]
  have a: "onChooseSuggestionWith replaceRange ''#done'' ?m = (Some MutationRejected, ?m)"
    by (rule mp [OF conjunct1 [OF raising] rejected_example(1)])
  have b: "onChooseSuggestionWith replaceRangeIgnoring ''#done'' ?m =
      (None, ?m\<lparr>editor := setCursor
                        (if ''#done'' = CLEAR_TAG then from_pos (tagPosition ?m)
                         else \<lparr>line = line (from_pos (tagPosition ?m)),
                               ch = ch (from_pos (tagPosition ?m)) + length ''#done''\<rparr>) ?ed,
                      settings := (if ''#done'' = CLEAR_TAG then settings ?m
                                   else updateRecentlyChosenTags ''#done'' (settings ?m))\<rparr>)"
    by (rule mp [OF conjunct1 [OF conjunct2 [OF ignoring]] ignoring_example(1)])
  have c: "onChooseSuggestion ''#done'' ?m = (Some MutationRejected, ?m)"
    by (rule mp [OF conjunct2 [OF conjunct2 [OF conjunct2 [OF conjunct2 [OF raising]]]]
          rejected_example(2)])
  have d: "onChooseSuggestionWith replaceRangeIgnoring ''#done'' ?m =
      (None, \<lparr>editor = \<lparr>doc = [''x #todo y''], cursor = \<lparr>line = 0, ch = 7\<rparr>, readOnly = True\<rparr>,
         tagPosition = spanOn 0 (2, 7), allTags = [],
         settings = \<lparr>recentlyChosenTags = [''#a'', ''#done'']\<rparr>\<rparr>)"
    using b by (simp only: ignoring_example(2))
  show ?thesis
    by (intro conjI a c d)
qed

text \<open>
  C9 as stated fails: the handler cannot tell a rejected replacement from an accepted
  one unless the call raises. With a host that ignores the replacement on a read-only
  document, the document \<open>x #todo y\<close> is as it was after \<open>#done\<close> is chosen on the
  span of \<open>#todo\<close>, yet the handler completes, the cursor is moved to column 7 and
  \<open>#done\<close> is in the recency list.
\<close>

theorem onChooseSuggestion_rejected_counterexample:
  "replaceRangeIgnoring ''#done'' \<lparr>line = 0, ch = 2\<rparr> \<lparr>line = 0, ch = 7\<rparr>
       \<lparr>doc = [''x #todo y''], cursor = \<lparr>line = 0, ch = 4\<rparr>, readOnly = True\<rparr>
     = Inr \<lparr>doc = [''x #todo y''], cursor = \<lparr>line = 0, ch = 4\<rparr>, readOnly = True\<rparr>
   \<and> onChooseSuggestionWith replaceRangeIgnoring ''#done''
        \<lparr>editor = \<lparr>doc = [''x #todo y''], cursor = \<lparr>line = 0, ch = 4\<rparr>, readOnly = True\<rparr>,
         tagPosition = \<lparr>from_pos = \<lparr>line = 0, ch = 2\<rparr>, to_pos = \<lparr>line = 0, ch = 7\<rparr>\<rparr>,
         allTags = [], settings = \<lparr>recentlyChosenTags = [''#a'']\<rparr>\<rparr>
     = (None,
        \<lparr>editor = \<lparr>doc = [''x #todo y''], cursor = \<lparr>line = 0, ch = 7\<rparr>, readOnly = True\<rparr>,
         tagPosition = \<lparr>from_pos = \<lparr>line = 0, ch = 2\<rparr>, to_pos = \<lparr>line = 0, ch = 7\<rparr>\<rparr>,
         allTags = [], settings = \<lparr>recentlyChosenTags = [''#a'', ''#done'']\<rparr>\<rparr>)"
  by code_simp

end
